theory Spec2Isabelle
  imports Complex_Main
begin

section \<open>Tensors\<close>

text \<open>
  The backbone of \<^verbatim>\<open>src/models/gnn/backbone.py\<close> handles tensors of one or two
  dimensions: a per-edge tensor has shape \<open>[E]\<close> or \<open>[E, D]\<close>, node features have shape
  \<open>[N, F]\<close>. \<open>T1 v\<close> is the one-dimensional tensor with entries \<open>v\<close>; \<open>T2 D rs\<close> is the
  two-dimensional tensor with the rows \<open>rs\<close>, each of width \<open>D\<close> (the width is stored, since
  a tensor of shape \<open>[0, D]\<close> has no row to read it from).
\<close>

datatype 'a tensor = T1 "'a list" | T2 nat "'a list list"

fun tdim :: "'a tensor \<Rightarrow> nat" where
  "tdim (T1 v) = 1"
| "tdim (T2 D rs) = 2"

fun size_last :: "'a tensor \<Rightarrow> nat" where
  "size_last (T1 v) = length v"
| "size_last (T2 D rs) = D"

fun size0 :: "'a tensor \<Rightarrow> nat" where
  "size0 (T1 v) = length v"
| "size0 (T2 D rs) = length rs"

fun shape :: "'a tensor \<Rightarrow> nat list" where
  "shape (T1 v) = [length v]"
| "shape (T2 D rs) = [length rs, D]"

fun wf_tensor :: "'a tensor \<Rightarrow> bool" where
  "wf_tensor (T1 v) = True"
| "wf_tensor (T2 D rs) = list_all (\<lambda>r. length r = D) rs"

section \<open>Floating-point numbers\<close>

text \<open>
  The entries of a tensor are floating-point numbers of its dtype: the finite numbers
  of the format, the two infinities and \<open>nan\<close>. The two zeros are one value here: they
  are equal in every comparison, and a zero divisor in the normaliser is a sum with the
  positive \<open>\<epsilon>\<close>, which is never the negative zero.
\<close>

datatype fval = Fin real | PInf | NInf | NaN

text \<open>
  The arithmetic of a dtype, as the tensor library provides it. \<open>rnd\<close> takes the exact
  result of an operation on finite numbers to the number of the format it is rounded
  to, or to an infinity when it overflows. \<open>row_mean\<close> is \<^verbatim>\<open>mean(dim=-1)\<close> on one row;
  the order in which the library sums a row is its own.
\<close>

record arith =
  rnd :: "real \<Rightarrow> fval"
  row_mean :: "fval list \<Rightarrow> fval"

text \<open>
  Addition, negation, subtraction and division of IEEE 754: the exact result rounded,
  and the results on infinities, on \<open>nan\<close> and on a zero divisor.
\<close>

fun fadd :: "(real \<Rightarrow> fval) \<Rightarrow> fval \<Rightarrow> fval \<Rightarrow> fval" where
  "fadd r (Fin x) (Fin y) = r (x + y)"
| "fadd r NaN b = NaN"
| "fadd r a NaN = NaN"
| "fadd r PInf NInf = NaN"
| "fadd r NInf PInf = NaN"
| "fadd r PInf b = PInf"
| "fadd r a PInf = PInf"
| "fadd r NInf b = NInf"
| "fadd r a NInf = NInf"

fun fneg :: "fval \<Rightarrow> fval" where
  "fneg (Fin x) = Fin (- x)"
| "fneg PInf = NInf"
| "fneg NInf = PInf"
| "fneg NaN = NaN"

definition fsub :: "(real \<Rightarrow> fval) \<Rightarrow> fval \<Rightarrow> fval \<Rightarrow> fval" where
  "fsub r a b = fadd r a (fneg b)"

fun fdiv :: "(real \<Rightarrow> fval) \<Rightarrow> fval \<Rightarrow> fval \<Rightarrow> fval" where
  "fdiv r (Fin x) (Fin y) =
     (if y = 0 then (if x = 0 then NaN else if 0 < x then PInf else NInf) else r (x / y))"
| "fdiv r NaN b = NaN"
| "fdiv r a NaN = NaN"
| "fdiv r (Fin x) b = Fin 0"
| "fdiv r PInf (Fin y) = (if 0 \<le> y then PInf else NInf)"
| "fdiv r NInf (Fin y) = (if 0 \<le> y then NInf else PInf)"
| "fdiv r a b = NaN"

text \<open>The comparisons \<open><\<close> and \<open>\<le>\<close>: false when a side is \<open>nan\<close>.\<close>

fun flt :: "fval \<Rightarrow> fval \<Rightarrow> bool" where
  "flt (Fin x) (Fin y) = (x < y)"
| "flt NaN b = False"
| "flt a NaN = False"
| "flt a NInf = False"
| "flt PInf b = False"
| "flt a b = True"

fun fle :: "fval \<Rightarrow> fval \<Rightarrow> bool" where
  "fle (Fin x) (Fin y) = (x \<le> y)"
| "fle NaN b = False"
| "fle a NaN = False"
| "fle NInf b = True"
| "fle a PInf = True"
| "fle a b = False"

text \<open>\<^verbatim>\<open>m.min()\<close> and \<^verbatim>\<open>m.max()\<close> of a tensor with elements: \<open>nan\<close> if one is.\<close>

definition fmin :: "fval \<Rightarrow> fval \<Rightarrow> fval" where
  "fmin a b = (if a = NaN \<or> b = NaN then NaN else if flt b a then b else a)"

definition fmax :: "fval \<Rightarrow> fval \<Rightarrow> fval" where
  "fmax a b = (if a = NaN \<or> b = NaN then NaN else if flt a b then b else a)"

fun list_min :: "fval list \<Rightarrow> fval" where
  "list_min [] = NaN"
| "list_min (v # vs) = fold fmin vs v"

fun list_max :: "fval list \<Rightarrow> fval" where
  "list_max [] = NaN"
| "list_max (v # vs) = fold fmax vs v"

text \<open>\<^verbatim>\<open>torch.clamp(w, min=0.0)\<close>, elementwise.\<close>

fun clamp_min0 :: "fval \<Rightarrow> fval" where
  "clamp_min0 (Fin v) = Fin (max v 0)"
| "clamp_min0 PInf = PInf"
| "clamp_min0 NInf = Fin 0"
| "clamp_min0 NaN = NaN"

definition clamp :: "fval list \<Rightarrow> fval tensor" where
  "clamp w = T1 (map clamp_min0 w)"

text \<open>
  Rounding to the nearest number of a binary format of precision \<open>p\<close> and largest
  exponent \<open>emax\<close>, ties to even: beyond the largest finite number by half a unit in the
  last place the result is an infinity; below the smallest normal number the spacing
  stays the one of the subnormal numbers.
\<close>

definition round_even :: "real \<Rightarrow> int" where
  "round_even x =
     (let f = \<lfloor>x\<rfloor>; d = x - of_int f
      in if d < 1 / 2 then f else if 1 / 2 < d then f + 1 else if even f then f else f + 1)"

definition overflow_from :: "nat \<Rightarrow> int \<Rightarrow> real" where
  "overflow_from p emax = 2 powi (emax + 1) - 2 powi (emax - int p)"

definition ulp_exp :: "nat \<Rightarrow> int \<Rightarrow> real \<Rightarrow> int" where
  "ulp_exp p emax x = max \<lfloor>log 2 \<bar>x\<bar>\<rfloor> (1 - emax) - (int p - 1)"

text \<open>Rounding on one grid: to the nearest multiple of \<open>2 powi q\<close>.\<close>

definition on_grid :: "int \<Rightarrow> real \<Rightarrow> real" where
  "on_grid q x = of_int (round_even (x / 2 powi q)) * 2 powi q"

definition ieee_rnd :: "nat \<Rightarrow> int \<Rightarrow> real \<Rightarrow> fval" where
  "ieee_rnd p emax x =
     (if overflow_from p emax \<le> \<bar>x\<bar> then (if 0 < x then PInf else NInf)
      else if x = 0 then Fin 0
      else Fin (on_grid (ulp_exp p emax x) x))"

text \<open>The mean of a row summed from the left.\<close>

definition seq_mean :: "(real \<Rightarrow> fval) \<Rightarrow> fval list \<Rightarrow> fval" where
  "seq_mean r vs = fdiv r (fold (\<lambda>v acc. fadd r acc v) vs (Fin 0)) (Fin (real (length vs)))"

text \<open>The dtypes \<^verbatim>\<open>float32\<close>, the default, and \<^verbatim>\<open>float64\<close>.\<close>

definition float32 :: arith where
  "float32 = \<lparr>rnd = ieee_rnd 24 127, row_mean = seq_mean (ieee_rnd 24 127)\<rparr>"

definition float64 :: arith where
  "float64 = \<lparr>rnd = ieee_rnd 53 1023, row_mean = seq_mean (ieee_rnd 53 1023)\<rparr>"

text \<open>
  What the proofs about the normaliser need of an arithmetic: 0 and 1 are numbers of the
  format, rounding is monotone (so never \<open>nan\<close>), and a number of the format rounds to
  itself.
\<close>

definition ieee_rounding :: "arith \<Rightarrow> bool" where
  "ieee_rounding fp \<longleftrightarrow>
     rnd fp 0 = Fin 0 \<and> rnd fp 1 = Fin 1 \<and>
     (\<forall>x y. x \<le> y \<longrightarrow> fle (rnd fp x) (rnd fp y)) \<and>
     (\<forall>x v. rnd fp x = Fin v \<longrightarrow> rnd fp v = Fin v)"

section \<open>The edge feature normaliser\<close>

datatype exn =
    ValueError_hidden_dims
  | ValueError_gine_edge_dim
  | ValueError_unsupported string
  | ValueError_gine_edge_attr
  | ValueError_dropout
  | RuntimeError_edge_dim
  | RuntimeError_min_empty
  | IndexError_column
  | AttributeError_readout
  | LibraryError nat

text \<open>
  \<^verbatim>\<open>eps = 1e-8\<close>. In an operation with a tensor the Python number takes the tensor's
  dtype: it is rounded to the format.
\<close>

definition eps :: real where
  "eps = 1 / 10 ^ 8"

definition feps :: "arith \<Rightarrow> fval" where
  "feps fp = rnd fp eps"

text \<open>
  \<^verbatim>\<open>_edge_weight_from_attr(edge_attr, mode)\<close>, on a tensor of the dtype with the
  arithmetic \<open>fp\<close>. The exceptions are the library's: \<^verbatim>\<open>edge_attr[:, 0]\<close> on a tensor of
  width 0 raises IndexError, and \<^verbatim>\<open>m.min()\<close> on a tensor without elements raises
  RuntimeError.
\<close>

definition edge_weight_from_attr :: "arith \<Rightarrow> fval tensor \<Rightarrow> string \<Rightarrow> exn + fval tensor" where
  "edge_weight_from_attr fp edge_attr mode =
    (case edge_attr of
       T1 w \<Rightarrow> Inr (clamp w)
     | T2 D rs \<Rightarrow>
         if D = 1 then Inr (clamp (map hd rs))
         else if mode = ''first_inv'' then
           (if D = 0 then Inl IndexError_column
            else Inr (clamp (map (\<lambda>r. fdiv (rnd fp) (Fin 1) (fadd (rnd fp) (hd r) (feps fp))) rs)))
         else if mode = ''mean_inv'' then
           Inr (clamp (map (\<lambda>r. fdiv (rnd fp) (Fin 1) (fadd (rnd fp) (row_mean fp r) (feps fp))) rs))
         else
           (let m = map (row_mean fp) rs in
            if m = [] then Inl RuntimeError_min_empty
            else
              let m_min = list_min m; m_max = list_max m in
              if flt (feps fp) (fsub (rnd fp) m_max m_min)
              then Inr (clamp (map (\<lambda>v. fsub (rnd fp) (Fin 1)
                                      (fdiv (rnd fp) (fsub (rnd fp) v m_min)
                                         (fadd (rnd fp) (fsub (rnd fp) m_max m_min) (feps fp)))) m))
              else Inr (clamp (map (\<lambda>v. Fin 1) m))))"

section \<open>Configuration and state of the backbone\<close>

text \<open>
  The graph batch handed to \<^verbatim>\<open>forward\<close>. A field read with
  \<^verbatim>\<open>getattr(data, name, None)\<close> is \<open>None\<close> when the batch does not carry it.
  \<^verbatim>\<open>edge_index\<close> has shape \<open>[2, E]\<close>: one pair of node indices per edge.
\<close>

record batch_data =
  data_x :: "fval tensor"
  data_edge_index :: "(nat \<times> nat) list"
  data_edge_attr :: "fval tensor option"
  data_edge_weight :: "fval tensor option"
  data_edge_v :: "fval tensor option"
  data_batch :: "nat list option"

text \<open>
  The convolution operators come from the graph library. A layer object is represented
  by what its constructor was given, and by an object identity: every constructed
  module gets the next free identity, so that two layers of equal widths built by two
  calls are different objects.
\<close>

datatype conv_op = GCNConv | GATConv | GATv2Conv | SAGEConv | GINConv | GINEConv

datatype layer =
  Layer (layer_id: nat) (layer_op: conv_op) (in_channels: nat) (out_channels: nat)
        (layer_edge_dim: "nat option")

datatype linear = Linear (linear_id: nat) (in_features: nat) (out_features: nat)

datatype notice =
    Dims_deprecated
  | Edge_v_ignored
  | Gcn_weight_failed
  | Edge_attr_ignored string

text \<open>
  The attributes of a \<^verbatim>\<open>GNNBackbone\<close> instance. Widths are natural numbers (a
  negative width is refused by the library's constructors). \<open>convs\<close> and \<open>readout\<close>
  exist once \<^verbatim>\<open>_build_layers\<close> has assigned them.
\<close>

record backbone =
  conv_type :: string
  hidden_dims :: "nat list"
  out_dim :: nat
  dropout_p :: real
  residue_logits :: bool
  gcn_edge_mode :: string
  gine_missing_edge_policy :: string
  built :: bool
  edge_dim :: "nat option"
  warned_edge_ignored :: bool
  warned_edge_v_ignored :: bool
  convs :: "layer list"
  readout :: "linear option"
  next_id :: nat

text \<open>\<^verbatim>\<open>str.lower\<close> and \<^verbatim>\<open>str.upper\<close>, on ASCII strings.\<close>

definition lower_char :: "char \<Rightarrow> char" where
  "lower_char c =
     (case map_of (zip ''ABCDEFGHIJKLMNOPQRSTUVWXYZ'' ''abcdefghijklmnopqrstuvwxyz'') c of
        None \<Rightarrow> c
      | Some l \<Rightarrow> l)"

definition upper_char :: "char \<Rightarrow> char" where
  "upper_char c =
     (case map_of (zip ''abcdefghijklmnopqrstuvwxyz'' ''ABCDEFGHIJKLMNOPQRSTUVWXYZ'') c of
        None \<Rightarrow> c
      | Some u \<Rightarrow> u)"

definition lower :: "string \<Rightarrow> string" where
  "lower s = map lower_char s"

definition upper :: "string \<Rightarrow> string" where
  "upper s = map upper_char s"

definition supported_kinds :: "string list" where
  "supported_kinds = [''gcn'', ''gat'', ''gatv2'', ''sage'', ''gin'', ''gine'']"

section \<open>Construction\<close>

text \<open>
  \<^verbatim>\<open>GNNBackbone.__init__\<close>. \<open>legacy_kwargs\<close> are the extra keyword arguments, in the
  order given; an argument can be passed as \<^verbatim>\<open>None\<close>. The result is the exception
  raised or the new instance, together with the warnings emitted.
\<close>

definition GNNBackbone_init ::
  "string \<Rightarrow> nat list option \<Rightarrow> nat \<Rightarrow> real \<Rightarrow> bool \<Rightarrow> string \<Rightarrow> string \<Rightarrow>
   (string \<times> nat list option) list \<Rightarrow> (exn + backbone) \<times> notice list" where
  "GNNBackbone_init ct hd_arg od p rl mode policy legacy_kwargs =
    (let use_dims = (hd_arg = None \<and> map_of legacy_kwargs ''dims'' \<noteq> None);
         warns = (if use_dims then [Dims_deprecated] else []);
         hd_arg' = (if use_dims then the (map_of legacy_kwargs ''dims'') else hd_arg)
     in case hd_arg' of
          None \<Rightarrow> (Inl ValueError_hidden_dims, warns)
        | Some hs \<Rightarrow>
            (Inr \<lparr>conv_type = lower ct, hidden_dims = hs, out_dim = od, dropout_p = p,
                  residue_logits = rl, gcn_edge_mode = mode,
                  gine_missing_edge_policy = policy, built = False, edge_dim = None,
                  warned_edge_ignored = False, warned_edge_v_ignored = False,
                  convs = [], readout = None, next_id = 0\<rparr>, warns))"

section \<open>Building the layers\<close>

text \<open>\<^verbatim>\<open>_make_conv\<close>; \<open>oid\<close> is the identity of the object constructed.\<close>

definition make_conv :: "string \<Rightarrow> nat \<Rightarrow> nat \<Rightarrow> nat \<Rightarrow> nat option \<Rightarrow> exn + layer" where
  "make_conv ct oid i_dim o_dim e_dim =
    (if ct = ''gcn'' then Inr (Layer oid GCNConv i_dim o_dim None)
     else if ct = ''gat'' then Inr (Layer oid GATConv i_dim o_dim None)
     else if ct = ''gatv2'' then Inr (Layer oid GATv2Conv i_dim o_dim None)
     else if ct = ''sage'' then Inr (Layer oid SAGEConv i_dim o_dim None)
     else if ct = ''gin'' then Inr (Layer oid GINConv i_dim o_dim None)
     else if ct = ''gine'' then
       (case e_dim of
          None \<Rightarrow> Inl ValueError_gine_edge_dim
        | Some k \<Rightarrow> Inr (Layer oid GINEConv i_dim o_dim (Some k)))
     else Inl (ValueError_unsupported ct))"

text \<open>The loop of \<^verbatim>\<open>_build_layers\<close> over the hidden widths.\<close>

fun build_loop :: "string \<Rightarrow> nat option \<Rightarrow> nat \<Rightarrow> nat \<Rightarrow> nat list \<Rightarrow> exn + layer list" where
  "build_loop ct e_dim oid prev [] = Inr []"
| "build_loop ct e_dim oid prev (d # ds) =
     (case make_conv ct oid prev d (if ct = ''gine'' then e_dim else None) of
        Inl e \<Rightarrow> Inl e
      | Inr l \<Rightarrow>
          (case build_loop ct e_dim (Suc oid) d ds of
             Inl e \<Rightarrow> Inl e
           | Inr ls \<Rightarrow> Inr (l # ls)))"

text \<open>
  \<^verbatim>\<open>_build_layers\<close>. The assignments follow the source's order: an exception in the
  loop leaves the instance as it was; \<^verbatim>\<open>nn.Dropout(p)\<close> raises for a probability
  outside \<open>[0, 1]\<close>, after \<^verbatim>\<open>self.convs\<close> has been assigned and before the readout and
  the built flag are.
\<close>

definition build_layers :: "backbone \<Rightarrow> nat \<Rightarrow> nat option \<Rightarrow> (exn + unit) \<times> backbone" where
  "build_layers s i_dim e_dim =
    (case build_loop (conv_type s) e_dim (next_id s) i_dim (hidden_dims s) of
       Inl e \<Rightarrow> (Inl e, s)
     | Inr ls \<Rightarrow>
         let s1 = s\<lparr>convs := ls, next_id := next_id s + length ls\<rparr> in
         if dropout_p s < 0 \<or> dropout_p s > 1 then (Inl ValueError_dropout, s1)
         else (Inr (),
               s1\<lparr>readout := Some (Linear (next_id s1) (sum_list (hidden_dims s)) (out_dim s)),
                   next_id := Suc (next_id s1), edge_dim := e_dim, built := True\<rparr>))"

section \<open>Input adaptation\<close>

type_synonym prepared =
  "fval tensor \<times> (nat \<times> nat) list \<times> fval tensor option \<times> fval tensor option \<times> nat list"

definition ignoring_kinds :: "string list" where
  "ignoring_kinds = [''gat'', ''gatv2'', ''sage'', ''gin'']"

text \<open>
  \<^verbatim>\<open>_prepare_inputs\<close> in its blocks. Each returns the instance with its notice flags
  updated and the warnings it emitted.

  The notice on \<^verbatim>\<open>edge_v\<close>, shown once:
\<close>

definition note_edge_v :: "backbone \<Rightarrow> batch_data \<Rightarrow> backbone \<times> notice list" where
  "note_edge_v s d =
     (if data_edge_v d \<noteq> None \<and> \<not> warned_edge_v_ignored s
      then (s\<lparr>warned_edge_v_ignored := True\<rparr>, [Edge_v_ignored])
      else (s, []))"

text \<open>
  The \<^verbatim>\<open>gcn\<close> block: without an explicit weight, the edge features are turned into
  one; any exception of the conversion is caught. The block yields the edge weight; an
  explicit edge weight is used as it is.
\<close>

definition adapt_gcn ::
  "arith \<Rightarrow> backbone \<Rightarrow> batch_data \<Rightarrow> fval tensor option \<times> backbone \<times> notice list" where
  "adapt_gcn fp s d =
     (if conv_type s = ''gcn'' \<and> data_edge_weight d = None \<and> data_edge_attr d \<noteq> None then
        (case edge_weight_from_attr fp (the (data_edge_attr d)) (gcn_edge_mode s) of
           Inr ew \<Rightarrow> (Some ew, s, [])
         | Inl e \<Rightarrow>
             if \<not> warned_edge_ignored s
             then (None, s\<lparr>warned_edge_ignored := True\<rparr>, [Gcn_weight_failed])
             else (None, s, []))
      else (data_edge_weight d, s, []))"

text \<open>The block of the kinds that take no edge features; it yields the edge features.\<close>

definition adapt_ignoring :: "backbone \<Rightarrow> batch_data \<Rightarrow> fval tensor option \<times> backbone \<times> notice list" where
  "adapt_ignoring s d =
     (if conv_type s \<in> set ignoring_kinds then
        (if data_edge_attr d \<noteq> None \<and> \<not> warned_edge_ignored s
         then (None, s\<lparr>warned_edge_ignored := True\<rparr>, [Edge_attr_ignored (upper (conv_type s))])
         else (None, s, []))
      else (data_edge_attr d, s, []))"

text \<open>
  \<^verbatim>\<open>_prepare_inputs\<close>, with the arithmetic \<open>fp\<close> of the tensors' dtype: the exception
  raised or the tuple \<open>(x, edge_index, edge_attr, edge_weight, batch)\<close>, the instance
  afterwards, and the warnings emitted.
\<close>

definition prepare_inputs ::
  "arith \<Rightarrow> backbone \<Rightarrow> batch_data \<Rightarrow> (exn + prepared) \<times> backbone \<times> notice list" where
  "prepare_inputs fp s d =
    (let (s1, n1) = note_edge_v s d;
         (edge_weight, s2, n2) = adapt_gcn fp s1 d;
         (edge_attr, s3, n3) = adapt_ignoring s2 d;
         batch = (case data_batch d of
                    None \<Rightarrow> replicate (size0 (data_x d)) 0
                  | Some b \<Rightarrow> b)
     in if conv_type s3 = ''gine'' \<and> edge_attr = None \<and> gine_missing_edge_policy s3 \<noteq> ''zeros''
        then (Inl ValueError_gine_edge_attr, s3, n1 @ n2 @ n3)
        else (Inr (data_x d, data_edge_index d, edge_attr, edge_weight, batch), s3, n1 @ n2 @ n3))"

section \<open>The forward pass\<close>

text \<open>
  What a convolution layer is called with besides the node features and the edge
  index: \<^verbatim>\<open>edge_weight=...\<close> for a \<^verbatim>\<open>GCNConv\<close>, the edge features for a
  \<^verbatim>\<open>GINEConv\<close>, nothing for the others.
\<close>

datatype conv_arg = Weight "fval tensor option" | Attr "fval tensor option" | Plain

datatype call = Call layer "fval tensor" "(nat \<times> nat) list" conv_arg

fun call_arg :: "call \<Rightarrow> conv_arg" where
  "call_arg (Call l h ei a) = a"

fun call_layer :: "call \<Rightarrow> layer" where
  "call_layer (Call l h ei a) = l"

text \<open>
  The library the backbone composes: evaluating a convolution layer, the activation,
  dropout, \<^verbatim>\<open>torch.cat\<close> along the last axis, \<^verbatim>\<open>global_mean_pool\<close> and the linear
  readout. They are parameters of the model; each can raise. \<open>n_graphs\<close> is the number of
  graphs the pooling finds in an assignment vector, \<open>float_ops\<close> the arithmetic of the
  tensors' dtype.
\<close>

record extern =
  conv_fwd :: "layer \<Rightarrow> fval tensor \<Rightarrow> (nat \<times> nat) list \<Rightarrow> conv_arg \<Rightarrow> exn + fval tensor"
  act_fwd :: "fval tensor \<Rightarrow> fval tensor"
  dropout_fwd :: "real \<Rightarrow> fval tensor \<Rightarrow> fval tensor"
  cat_fwd :: "fval tensor list \<Rightarrow> exn + fval tensor"
  pool_fwd :: "fval tensor \<Rightarrow> nat list \<Rightarrow> exn + fval tensor"
  linear_fwd :: "linear \<Rightarrow> fval tensor \<Rightarrow> exn + fval tensor"
  n_graphs :: "nat list \<Rightarrow> nat"
  float_ops :: arith

text \<open>
  The loop over \<^verbatim>\<open>self.convs\<close> in \<^verbatim>\<open>forward\<close>: the outputs kept in \<^verbatim>\<open>outs\<close>, or the
  exception of the layer that raised, and the calls made. \<open>pick_arg\<close> is the loop's
  dispatch on the class of the layer.
\<close>

definition pick_arg :: "layer \<Rightarrow> fval tensor option \<Rightarrow> fval tensor option \<Rightarrow> conv_arg" where
  "pick_arg c ea ew =
     (if layer_op c = GCNConv then Weight ew
      else if layer_op c = GINEConv then Attr ea
      else Plain)"

fun run_convs ::
  "extern \<Rightarrow> real \<Rightarrow> layer list \<Rightarrow> fval tensor \<Rightarrow> (nat \<times> nat) list \<Rightarrow> fval tensor option \<Rightarrow>
   fval tensor option \<Rightarrow> (exn + fval tensor list) \<times> call list" where
  "run_convs ext p [] h ei ea ew = (Inr [], [])"
| "run_convs ext p (c # cs) h ei ea ew =
     (let a = pick_arg c ea ew
      in case conv_fwd ext c h ei a of
           Inl e \<Rightarrow> (Inl e, [Call c h ei a])
         | Inr h1 \<Rightarrow>
             let h2 = dropout_fwd ext p (act_fwd ext h1) in
             (case run_convs ext p cs h2 ei ea ew of
                (Inl e, calls) \<Rightarrow> (Inl e, Call c h ei a # calls)
              | (Inr outs, calls) \<Rightarrow> (Inr (h2 # outs), Call c h ei a # calls)))"

text \<open>The lazy build at the head of \<^verbatim>\<open>forward\<close>, entered when the instance is not built.\<close>

definition lazy_build :: "backbone \<Rightarrow> fval tensor \<Rightarrow> fval tensor option \<Rightarrow> (exn + unit) \<times> backbone" where
  "lazy_build s x ea =
    (let i_dim = size_last x in
     if conv_type s = ''gine'' then
       (case ea of
          Some t \<Rightarrow> build_layers s i_dim (Some (if tdim t = 2 then size_last t else 1))
        | None \<Rightarrow>
            if gine_missing_edge_policy s = ''zeros'' then build_layers s i_dim (Some 1)
            else (Inl RuntimeError_edge_dim, s))
     else build_layers s i_dim None)"

text \<open>\<^verbatim>\<open>torch.zeros(E, D)\<close>.\<close>

definition zeros :: "nat \<Rightarrow> nat \<Rightarrow> fval tensor" where
  "zeros E D = T2 D (replicate E (replicate D (Fin 0)))"

text \<open>The readout of \<^verbatim>\<open>forward\<close>: concatenation, pooling unless residue-level, projection.\<close>

definition read_out :: "extern \<Rightarrow> backbone \<Rightarrow> fval tensor list \<Rightarrow> nat list \<Rightarrow> exn + fval tensor" where
  "read_out ext s outs batch =
    (case cat_fwd ext outs of
       Inl e \<Rightarrow> Inl e
     | Inr h_cat \<Rightarrow>
         (case readout s of
            None \<Rightarrow> Inl AttributeError_readout
          | Some lin \<Rightarrow>
              if residue_logits s then linear_fwd ext lin h_cat
              else (case pool_fwd ext h_cat batch of
                      Inl e \<Rightarrow> Inl e
                    | Inr g \<Rightarrow> linear_fwd ext lin g)))"

text \<open>
  The outcome of one call of \<^verbatim>\<open>forward\<close>: the tensor returned or the exception raised,
  the instance afterwards, the warnings emitted and the layer calls made.
\<close>

record fwd =
  f_result :: "exn + fval tensor"
  f_state :: backbone
  f_notices :: "notice list"
  f_calls :: "call list"

text \<open>
  The placeholder of \<^verbatim>\<open>forward\<close> for a \<^verbatim>\<open>gine\<close> backbone without edge features under
  the policy \<^verbatim>\<open>zeros\<close>: zeros of shape \<open>[E, self._edge_dim or 1]\<close>.
\<close>

definition fill_edge_attr :: "backbone \<Rightarrow> (nat \<times> nat) list \<Rightarrow> fval tensor option \<Rightarrow> fval tensor option" where
  "fill_edge_attr s ei ea =
     (if conv_type s = ''gine'' \<and> ea = None \<and> gine_missing_edge_policy s = ''zeros''
      then Some (zeros (length ei)
                   (case edge_dim s of
                      None \<Rightarrow> 1
                    | Some k \<Rightarrow> if k = 0 then 1 else k))
      else ea)"

definition forward :: "extern \<Rightarrow> backbone \<Rightarrow> batch_data \<Rightarrow> fwd" where
  "forward ext s d =
    (case prepare_inputs (float_ops ext) s d of
       (Inl e, s1, ns) \<Rightarrow> \<lparr>f_result = Inl e, f_state = s1, f_notices = ns, f_calls = []\<rparr>
     | (Inr (x, ei, ea, ew, batch), s1, ns) \<Rightarrow>
         (case (if built s1 then (Inr (), s1) else lazy_build s1 x ea) of
            (Inl e, s2) \<Rightarrow> \<lparr>f_result = Inl e, f_state = s2, f_notices = ns, f_calls = []\<rparr>
          | (Inr u, s2) \<Rightarrow>
              (case run_convs ext (dropout_p s2) (convs s2) x ei (fill_edge_attr s2 ei ea) ew of
                 (Inl e, calls) \<Rightarrow>
                   \<lparr>f_result = Inl e, f_state = s2, f_notices = ns, f_calls = calls\<rparr>
               | (Inr outs, calls) \<Rightarrow>
                   \<lparr>f_result = read_out ext s2 outs batch, f_state = s2, f_notices = ns,
                    f_calls = calls\<rparr>)))"

text \<open>A sequence of calls on one instance: the outcomes in order, and the instance at the end.\<close>

fun forward_seq :: "extern \<Rightarrow> backbone \<Rightarrow> batch_data list \<Rightarrow> fwd list" where
  "forward_seq ext s [] = []"
| "forward_seq ext s (d # ds) = forward ext s d # forward_seq ext (f_state (forward ext s d)) ds"

fun final_state :: "extern \<Rightarrow> backbone \<Rightarrow> batch_data list \<Rightarrow> backbone" where
  "final_state ext s [] = s"
| "final_state ext s (d # ds) = final_state ext (f_state (forward ext s d)) ds"

definition all_notices :: "extern \<Rightarrow> backbone \<Rightarrow> batch_data list \<Rightarrow> notice list" where
  "all_notices ext s ds = concat (map f_notices (forward_seq ext s ds))"

section \<open>The library's contract and the shape of a built stack\<close>

text \<open>
  The contract of the convolution-operator library, as the external interfaces of the
  backbone state it: an operator evaluated on node features of its input width, with
  the edge information its kind takes, returns node features of its output width;
  activation and dropout keep the shape; concatenating a non-empty list of \<open>[n, w\<^sub>i]\<close>
  tensors gives \<open>[n, \<Sum> w\<^sub>i]\<close>; pooling \<open>[n, w]\<close> over an assignment of length \<open>n\<close> gives
  one row per graph; the linear readout maps \<open>[n, in]\<close> to \<open>[n, out]\<close>. \<open>arg_fits\<close> says
  which edge argument a layer takes: an optional weight of shape \<open>[E]\<close> for a
  \<^verbatim>\<open>GCNConv\<close>, features of shape \<open>[E, edge_dim]\<close> for a \<^verbatim>\<open>GINEConv\<close>, none for the others.
\<close>

fun arg_fits :: "layer \<Rightarrow> nat \<Rightarrow> conv_arg \<Rightarrow> bool" where
  "arg_fits l E (Weight None) = (layer_op l = GCNConv)"
| "arg_fits l E (Weight (Some w)) = (layer_op l = GCNConv \<and> shape w = [E])"
| "arg_fits l E (Attr None) = False"
| "arg_fits l E (Attr (Some t)) =
     (layer_op l = GINEConv \<and> layer_edge_dim l = Some (size_last t) \<and> shape t = [E, size_last t])"
| "arg_fits l E Plain = (layer_op l \<noteq> GCNConv \<and> layer_op l \<noteq> GINEConv)"

definition lib_contract :: "extern \<Rightarrow> bool" where
  "lib_contract ext \<longleftrightarrow>
     (\<forall>l h ei a n. shape h = [n, in_channels l] \<and> arg_fits l (length ei) a \<longrightarrow>
        (\<exists>h'. conv_fwd ext l h ei a = Inr h' \<and> shape h' = [n, out_channels l])) \<and>
     (\<forall>h. shape (act_fwd ext h) = shape h) \<and>
     (\<forall>p h. shape (dropout_fwd ext p h) = shape h) \<and>
     (\<forall>hs n. hs \<noteq> [] \<and> (\<forall>h \<in> set hs. shape h = [n, size_last h]) \<longrightarrow>
        (\<exists>c. cat_fwd ext hs = Inr c \<and> shape c = [n, sum_list (map size_last hs)])) \<and>
     (\<forall>h b n w. shape h = [n, w] \<and> length b = n \<longrightarrow>
        (\<exists>g. pool_fwd ext h b = Inr g \<and> shape g = [n_graphs ext b, w])) \<and>
     (\<forall>lin h n. shape h = [n, in_features lin] \<longrightarrow>
        (\<exists>y. linear_fwd ext lin h = Inr y \<and> shape y = [n, out_features lin]))"

text \<open>
  A library that keeps the contract and refuses everything else; its operators return
  zeros and its tensors are \<^verbatim>\<open>float32\<close>. It serves as the library of the concrete runs
  below.
\<close>

definition plain_lib :: extern where
  "plain_lib =
     \<lparr>conv_fwd = (\<lambda>l h ei a.
        if shape h = [size0 h, in_channels l] \<and> arg_fits l (length ei) a
        then Inr (zeros (size0 h) (out_channels l)) else Inl (LibraryError 1)),
      act_fwd = (\<lambda>h. h),
      dropout_fwd = (\<lambda>p h. h),
      cat_fwd = (\<lambda>hs.
        case hs of
          [] \<Rightarrow> Inl (LibraryError 2)
        | h # _ \<Rightarrow>
            if list_all (\<lambda>u. shape u = [size0 h, size_last u]) hs
            then Inr (zeros (size0 h) (sum_list (map size_last hs))) else Inl (LibraryError 3)),
      pool_fwd = (\<lambda>h b.
        if shape h = [length b, size_last h]
        then Inr (zeros (length (remdups b)) (size_last h)) else Inl (LibraryError 4)),
      linear_fwd = (\<lambda>lin h.
        if shape h = [size0 h, in_features lin]
        then Inr (zeros (size0 h) (out_features lin)) else Inl (LibraryError 5)),
      n_graphs = (\<lambda>b. length (remdups b)),
      float_ops = float32\<rparr>"

text \<open>The operator class \<^verbatim>\<open>_make_conv\<close> constructs for a kind, if any.\<close>

definition op_of :: "string \<Rightarrow> conv_op option" where
  "op_of ct =
     (case make_conv ct 0 0 0 (Some 0) of
        Inl e \<Rightarrow> None
      | Inr l \<Rightarrow> Some (layer_op l))"

text \<open>
  \<open>stack_ok s F\<close>: the layers of \<open>s\<close> are those \<^verbatim>\<open>_build_layers\<close> makes for node features of
  width \<open>F\<close>: operators of the configured kind, widths chained
  \<open>F \<rightarrow> hidden[0] \<rightarrow> \<dots> \<rightarrow> hidden[last]\<close>, and a readout from the sum of the hidden widths
  to the output width.
\<close>

definition stack_ok :: "backbone \<Rightarrow> nat \<Rightarrow> bool" where
  "stack_ok s F \<longleftrightarrow>
     list_all (\<lambda>l. Some (layer_op l) = op_of (conv_type s) \<and>
                   layer_edge_dim l = (if conv_type s = ''gine'' then edge_dim s else None))
              (convs s) \<and>
     map (\<lambda>l. (in_channels l, out_channels l)) (convs s) = zip (F # hidden_dims s) (hidden_dims s) \<and>
     map_option in_features (readout s) = Some (sum_list (hidden_dims s)) \<and>
     map_option out_features (readout s) = Some (out_dim s)"

text \<open>The calls on which the \<^verbatim>\<open>gcn\<close> block catches an exception of the normaliser.\<close>

definition derivation_fails :: "arith \<Rightarrow> backbone \<Rightarrow> batch_data \<Rightarrow> bool" where
  "derivation_fails fp s d \<longleftrightarrow>
     conv_type s = ''gcn'' \<and> data_edge_weight d = None \<and>
     (case data_edge_attr d of
        None \<Rightarrow> False
      | Some t \<Rightarrow> isl (edge_weight_from_attr fp t (gcn_edge_mode s)))"

text \<open>The calls on which edge features are there and dropped.\<close>

definition attr_dropped :: "backbone \<Rightarrow> batch_data \<Rightarrow> bool" where
  "attr_dropped s d \<longleftrightarrow> conv_type s \<in> set ignoring_kinds \<and> data_edge_attr d \<noteq> None"

fun is_attr_ignored :: "notice \<Rightarrow> bool" where
  "is_attr_ignored (Edge_attr_ignored k) = True"
| "is_attr_ignored n = False"

text \<open>
  The three parts of an instance: its configuration, fixed at construction; its build
  state; its notice flags.
\<close>

definition config :: "backbone \<Rightarrow> string \<times> nat list \<times> nat \<times> real \<times> bool \<times> string \<times> string" where
  "config s = (conv_type s, hidden_dims s, out_dim s, dropout_p s, residue_logits s,
               gcn_edge_mode s, gine_missing_edge_policy s)"

definition stack :: "backbone \<Rightarrow> bool \<times> nat option \<times> layer list \<times> linear option \<times> nat" where
  "stack s = (built s, edge_dim s, convs s, readout s, next_id s)"

definition flags :: "backbone \<Rightarrow> bool \<times> bool" where
  "flags s = (warned_edge_ignored s, warned_edge_v_ignored s)"

text \<open>The edge width the lazy build of \<^verbatim>\<open>forward\<close> hands to \<^verbatim>\<open>_build_layers\<close>.\<close>

definition inferred_edge_dim :: "backbone \<Rightarrow> fval tensor option \<Rightarrow> nat option" where
  "inferred_edge_dim s ea =
     (if conv_type s = ''gine'' then
        (case ea of
           Some t \<Rightarrow> Some (if tdim t = 2 then size_last t else 1)
         | None \<Rightarrow> Some 1)
      else None)"

text \<open>
  The graph assignment \<^verbatim>\<open>_prepare_inputs\<close> returns: the batch's own, or all nodes in
  graph 0.
\<close>

definition batch_of :: "batch_data \<Rightarrow> nat list" where
  "batch_of d =
     (case data_batch d of
        None \<Rightarrow> replicate (size0 (data_x d)) 0
      | Some b \<Rightarrow> b)"

section \<open>Example instances and batches\<close>

text \<open>
  Used for the concrete runs: a graph of two nodes with three features each and two
  edges, without any optional field, and instances made by the constructor with the
  hidden widths \<open>[4]\<close> and the output width 1.
\<close>

definition graph2 :: batch_data where
  "graph2 = \<lparr>data_x = T2 3 [[Fin 1, Fin 2, Fin 3], [Fin 4, Fin 5, Fin 6]], data_edge_index = [(0, 1), (1, 0)],
             data_edge_attr = None, data_edge_weight = None, data_edge_v = None,
             data_batch = None\<rparr>"

definition instance_of :: "string \<Rightarrow> backbone" where
  "instance_of ct = projr (fst (GNNBackbone_init ct (Some [4]) 1 (3 / 10) False ''auto'' ''error'' []))"

section \<open>Properties\<close>

subsection \<open>Input adaptation in closed form\<close>

lemma note_edge_v_eq:
  "note_edge_v s d =
     (s\<lparr>warned_edge_v_ignored := warned_edge_v_ignored s \<or> data_edge_v d \<noteq> None\<rparr>,
      if data_edge_v d \<noteq> None \<and> \<not> warned_edge_v_ignored s then [Edge_v_ignored] else [])"
  by (simp add: note_edge_v_def)

lemma adapt_gcn_eq:
  "adapt_gcn fp s d =
     (if derivation_fails fp s d then None
      else if conv_type s = ''gcn'' \<and> data_edge_weight d = None \<and> data_edge_attr d \<noteq> None
      then Some (projr (edge_weight_from_attr fp (the (data_edge_attr d)) (gcn_edge_mode s)))
      else data_edge_weight d,
      s\<lparr>warned_edge_ignored := warned_edge_ignored s \<or> derivation_fails fp s d\<rparr>,
      if derivation_fails fp s d \<and> \<not> warned_edge_ignored s then [Gcn_weight_failed] else [])"
proof (cases "conv_type s = ''gcn'' \<and> data_edge_weight d = None \<and> data_edge_attr d \<noteq> None")
  case False
  then have "\<not> derivation_fails fp s d" by (auto simp add: derivation_fails_def)
  then show ?thesis using False by (auto simp add: adapt_gcn_def)
next
  case True
  then obtain t where t: "data_edge_attr d = Some t" by auto
  show ?thesis
  proof (cases "edge_weight_from_attr fp t (gcn_edge_mode s)")
    case (Inl e)
    then have "derivation_fails fp s d" using True t by (simp add: derivation_fails_def)
    then show ?thesis using True t Inl by (simp add: adapt_gcn_def)
  next
    case (Inr w)
    then have "\<not> derivation_fails fp s d" using True t by (simp add: derivation_fails_def)
    then show ?thesis using True t Inr by (simp add: adapt_gcn_def)
  qed
qed

lemma adapt_ignoring_eq:
  "adapt_ignoring s d =
     (if conv_type s \<in> set ignoring_kinds then None else data_edge_attr d,
      s\<lparr>warned_edge_ignored := warned_edge_ignored s \<or> attr_dropped s d\<rparr>,
      if attr_dropped s d \<and> \<not> warned_edge_ignored s then [Edge_attr_ignored (upper (conv_type s))] else [])"
  by (simp add: adapt_ignoring_def attr_dropped_def)

lemma derivation_fails_cong:
  "conv_type s' = conv_type s \<Longrightarrow> gcn_edge_mode s' = gcn_edge_mode s \<Longrightarrow>
   derivation_fails fp s' d = derivation_fails fp s d"
  by (cases "data_edge_attr d") (simp_all add: derivation_fails_def)

lemma adapt_gcn_weight_cong:
  "conv_type s' = conv_type s \<Longrightarrow> gcn_edge_mode s' = gcn_edge_mode s \<Longrightarrow>
   fst (adapt_gcn fp s' d) = fst (adapt_gcn fp s d)"
  using derivation_fails_cong [of s' s fp d] by (auto simp add: adapt_gcn_eq)

lemma prepare_inputs_eq:
  "prepare_inputs fp s d =
     (if conv_type s = ''gine'' \<and> data_edge_attr d = None \<and> gine_missing_edge_policy s \<noteq> ''zeros''
      then Inl ValueError_gine_edge_attr
      else Inr (data_x d, data_edge_index d,
                if conv_type s \<in> set ignoring_kinds then None else data_edge_attr d,
                fst (adapt_gcn fp s d),
                case data_batch d of None \<Rightarrow> replicate (size0 (data_x d)) 0 | Some b \<Rightarrow> b),
      s\<lparr>warned_edge_v_ignored := warned_edge_v_ignored s \<or> data_edge_v d \<noteq> None,
        warned_edge_ignored := warned_edge_ignored s \<or> derivation_fails fp s d \<or> attr_dropped s d\<rparr>,
      (if data_edge_v d \<noteq> None \<and> \<not> warned_edge_v_ignored s then [Edge_v_ignored] else []) @
      (if derivation_fails fp s d \<and> \<not> warned_edge_ignored s then [Gcn_weight_failed] else []) @
      (if attr_dropped s d \<and> \<not> warned_edge_ignored s then [Edge_attr_ignored (upper (conv_type s))] else []))"
proof -
  define s1 where "s1 = s\<lparr>warned_edge_v_ignored := warned_edge_v_ignored s \<or> data_edge_v d \<noteq> None\<rparr>"
  have c1: "conv_type s1 = conv_type s" "gcn_edge_mode s1 = gcn_edge_mode s"
    "warned_edge_ignored s1 = warned_edge_ignored s"
    "gine_missing_edge_policy s1 = gine_missing_edge_policy s"
    by (simp_all add: s1_def)
  have f1: "derivation_fails fp s1 d = derivation_fails fp s d" "fst (adapt_gcn fp s1 d) = fst (adapt_gcn fp s d)"
    using derivation_fails_cong [of s1 s fp d] adapt_gcn_weight_cong [of s1 s fp d] by (simp_all add: c1)
  define s2 where "s2 = s1\<lparr>warned_edge_ignored := warned_edge_ignored s1 \<or> derivation_fails fp s1 d\<rparr>"
  have c2: "conv_type s2 = conv_type s" "gine_missing_edge_policy s2 = gine_missing_edge_policy s"
    "warned_edge_ignored s2 = (warned_edge_ignored s \<or> derivation_fails fp s d)"
    unfolding s2_def using f1 c1 by simp_all
  have gcn_not_ign: "\<not> (derivation_fails fp s d \<and> attr_dropped s d)"
    by (auto simp add: derivation_fails_def attr_dropped_def ignoring_kinds_def)
  have a2: "attr_dropped s2 d = attr_dropped s d" by (simp add: attr_dropped_def c2)
  have e1: "note_edge_v s d = (s1, if data_edge_v d \<noteq> None \<and> \<not> warned_edge_v_ignored s then [Edge_v_ignored] else [])"
    by (simp add: note_edge_v_eq s1_def)
  have e2: "adapt_gcn fp s1 d = (fst (adapt_gcn fp s d), s2,
      if derivation_fails fp s d \<and> \<not> warned_edge_ignored s then [Gcn_weight_failed] else [])"
    using adapt_gcn_eq [of fp s1 d] f1 c1 by (simp add: s2_def)
  have e3: "adapt_ignoring s2 d = (if conv_type s \<in> set ignoring_kinds then None else data_edge_attr d,
      s2\<lparr>warned_edge_ignored := warned_edge_ignored s2 \<or> attr_dropped s2 d\<rparr>,
      if attr_dropped s d \<and> \<not> warned_edge_ignored s then [Edge_attr_ignored (upper (conv_type s))] else [])"
    using gcn_not_ign by (auto simp add: adapt_ignoring_eq c2 a2)
  have s3: "s2\<lparr>warned_edge_ignored := warned_edge_ignored s2 \<or> attr_dropped s2 d\<rparr> =
       s\<lparr>warned_edge_v_ignored := warned_edge_v_ignored s \<or> data_edge_v d \<noteq> None,
         warned_edge_ignored := warned_edge_ignored s \<or> derivation_fails fp s d \<or> attr_dropped s d\<rparr>"
    unfolding a2 c2 unfolding s2_def f1 c1 unfolding s1_def by (simp add: disj_assoc)
  have gine: "conv_type s = ''gine'' \<Longrightarrow> conv_type s \<notin> set ignoring_kinds"
    by (simp add: ignoring_kinds_def)
  show ?thesis
    unfolding prepare_inputs_def e1 e2 e3 s3 Let_def prod.case
    using gine by (simp add: c2)
qed

subsection \<open>Building\<close>

lemma make_conv_unsupported:
  "ct \<notin> set supported_kinds \<Longrightarrow> make_conv ct oid i_dim o_dim e_dim = Inl (ValueError_unsupported ct)"
  by (simp add: make_conv_def supported_kinds_def)

lemma op_of_supported: "ct \<in> set supported_kinds \<Longrightarrow> op_of ct \<noteq> None"
  by (auto simp add: op_of_def make_conv_def supported_kinds_def)

lemma make_conv_supported:
  assumes "ct \<in> set supported_kinds" and "ct = ''gine'' \<longrightarrow> e_dim \<noteq> None"
  shows "make_conv ct oid i_dim o_dim e_dim =
           Inr (Layer oid (the (op_of ct)) i_dim o_dim (if ct = ''gine'' then e_dim else None))"
  using assms by (auto simp add: op_of_def make_conv_def supported_kinds_def)

lemma make_conv_Inr:
  assumes "make_conv ct oid i_dim o_dim e_dim = Inr l"
  shows "l = Layer oid (the (op_of ct)) i_dim o_dim (if ct = ''gine'' then e_dim else None) \<and>
         ct \<in> set supported_kinds \<and> op_of ct \<noteq> None"
proof (cases "ct \<in> set supported_kinds")
  case False
  then show ?thesis using assms by (simp add: make_conv_unsupported)
next
  case True
  have "ct = ''gine'' \<longrightarrow> e_dim \<noteq> None"
    using assms by (auto simp add: make_conv_def split: option.splits)
  then show ?thesis using make_conv_supported [OF True, of e_dim oid i_dim o_dim] assms True op_of_supported
    by auto
qed

lemma build_loop_unsupported:
  "ct \<notin> set supported_kinds \<Longrightarrow> hs \<noteq> [] \<Longrightarrow>
   build_loop ct e_dim oid prev hs = Inl (ValueError_unsupported ct)"
  by (cases hs) (simp_all add: make_conv_unsupported)

lemma build_loop_supported:
  assumes "ct \<in> set supported_kinds" and "ct = ''gine'' \<longrightarrow> e_dim \<noteq> None"
  shows "\<exists>ls. build_loop ct e_dim oid prev hs = Inr ls"
proof (induction hs arbitrary: oid prev)
  case Nil
  show ?case by simp
next
  case (Cons d ds)
  obtain ls where "build_loop ct e_dim (Suc oid) d ds = Inr ls" using Cons by blast
  moreover have "make_conv ct oid prev d (if ct = ''gine'' then e_dim else None) =
      Inr (Layer oid (the (op_of ct)) prev d (if ct = ''gine'' then e_dim else None))"
    using make_conv_supported [OF assms(1), of "if ct = ''gine'' then e_dim else None"] assms(2)
    by simp
  ultimately show ?case by simp
qed

lemma build_loop_Inr:
  assumes "build_loop ct e_dim oid prev hs = Inr ls"
  shows "map (\<lambda>l. (in_channels l, out_channels l)) ls = zip (prev # hs) hs \<and>
         list_all (\<lambda>l. Some (layer_op l) = op_of ct \<and>
                       layer_edge_dim l = (if ct = ''gine'' then e_dim else None)) ls \<and>
         map layer_id ls = [oid ..< oid + length hs]"
  using assms
proof (induction hs arbitrary: oid prev ls)
  case Nil
  then show ?case by simp
next
  case (Cons d ds)
  from Cons.prems obtain l where
    l: "make_conv ct oid prev d (if ct = ''gine'' then e_dim else None) = Inr l"
    by (auto split: sum.splits)
  with Cons.prems obtain ls' where
    ls': "build_loop ct e_dim (Suc oid) d ds = Inr ls'" and eq: "ls = l # ls'"
    by (auto split: sum.splits)
  note ih = Cons.IH [OF ls']
  note ml = make_conv_Inr [OF l]
  have "[oid ..< oid + length (d # ds)] = oid # [Suc oid ..< Suc oid + length ds]"
    by (simp add: upt_rec)
  then show ?case using ih ml eq by auto
qed

lemma prepare_inputs_keeps:
  assumes "prepare_inputs fp s d = (r, s1, ns)"
  shows "config s1 = config s" and "stack s1 = stack s"
    and "warned_edge_v_ignored s1 = (warned_edge_v_ignored s \<or> data_edge_v d \<noteq> None)"
    and "warned_edge_ignored s1 = (warned_edge_ignored s \<or> derivation_fails fp s d \<or> attr_dropped s d)"
proof -
  have s1: "s1 = s\<lparr>warned_edge_v_ignored := warned_edge_v_ignored s \<or> data_edge_v d \<noteq> None,
        warned_edge_ignored := warned_edge_ignored s \<or> derivation_fails fp s d \<or> attr_dropped s d\<rparr>"
    using assms unfolding prepare_inputs_eq by simp
  show "config s1 = config s" "stack s1 = stack s"
    "warned_edge_v_ignored s1 = (warned_edge_v_ignored s \<or> data_edge_v d \<noteq> None)"
    "warned_edge_ignored s1 = (warned_edge_ignored s \<or> derivation_fails fp s d \<or> attr_dropped s d)"
    by (simp_all add: s1 config_def stack_def)
qed

lemma build_layers_loop_fails:
  "build_loop (conv_type s) ed (next_id s) F (hidden_dims s) = Inl e \<Longrightarrow>
   build_layers s F ed = (Inl e, s)"
  by (simp add: build_layers_def)

lemma build_layers_dropout_fails:
  "build_loop (conv_type s) ed (next_id s) F (hidden_dims s) = Inr ls \<Longrightarrow>
   dropout_p s < 0 \<or> dropout_p s > 1 \<Longrightarrow>
   build_layers s F ed = (Inl ValueError_dropout, s\<lparr>convs := ls, next_id := next_id s + length ls\<rparr>)"
  by (simp add: build_layers_def Let_def)

lemma build_layers_succeeds:
  "build_loop (conv_type s) ed (next_id s) F (hidden_dims s) = Inr ls \<Longrightarrow>
   0 \<le> dropout_p s \<Longrightarrow> dropout_p s \<le> 1 \<Longrightarrow>
   build_layers s F ed =
     (Inr (), s\<lparr>convs := ls, next_id := Suc (next_id s + length ls),
              readout := Some (Linear (next_id s + length ls) (sum_list (hidden_dims s)) (out_dim s)),
              edge_dim := ed, built := True\<rparr>)"
  by (simp add: build_layers_def Let_def)

lemma build_layers_Inl:
  assumes "build_layers s F ed = (Inl e, s')"
  shows "config s' = config s" and "flags s' = flags s" and "built s' = built s"
    and "readout s' = readout s" and "edge_dim s' = edge_dim s"
proof -
  have "s' = s \<or> (\<exists>ls. s' = s\<lparr>convs := ls, next_id := next_id s + length ls\<rparr>)"
  proof (cases "build_loop (conv_type s) ed (next_id s) F (hidden_dims s)")
    case (Inl e')
    then show ?thesis using assms build_layers_loop_fails [OF Inl] by simp
  next
    case (Inr ls)
    show ?thesis
    proof (cases "dropout_p s < 0 \<or> dropout_p s > 1")
      case True
      then show ?thesis using assms build_layers_dropout_fails [OF Inr True] by auto
    next
      case False
      then show ?thesis using assms build_layers_succeeds [OF Inr] by simp
    qed
  qed
  then show "config s' = config s" "flags s' = flags s" "built s' = built s"
    "readout s' = readout s" "edge_dim s' = edge_dim s"
    by (auto simp add: config_def flags_def)
qed

lemma build_layers_Inr:
  assumes "build_layers s F ed = (Inr u, s')"
  shows "config s' = config s" and "flags s' = flags s" and "built s'" and "stack_ok s' F"
    and "edge_dim s' = ed"
    and "map layer_id (convs s') = [next_id s ..< next_id s + length (hidden_dims s)]"
    and "readout s' = Some (Linear (next_id s + length (hidden_dims s)) (sum_list (hidden_dims s)) (out_dim s))"
    and "0 \<le> dropout_p s \<and> dropout_p s \<le> 1"
proof -
  obtain ls where
    ls: "build_loop (conv_type s) ed (next_id s) F (hidden_dims s) = Inr ls"
    using assms build_layers_loop_fails [of s ed F]
    by (cases "build_loop (conv_type s) ed (next_id s) F (hidden_dims s)") auto
  note bl = build_loop_Inr [OF ls]
  have len: "length ls = length (hidden_dims s)"
    using bl by (metis length_map length_upt add_diff_cancel_left')
  have p: "0 \<le> dropout_p s \<and> dropout_p s \<le> 1"
    using assms build_layers_dropout_fails [OF ls] by (cases "dropout_p s < 0 \<or> dropout_p s > 1") auto
  have s': "s' = s\<lparr>convs := ls, next_id := Suc (next_id s + length ls),
      readout := Some (Linear (next_id s + length ls) (sum_list (hidden_dims s)) (out_dim s)),
      edge_dim := ed, built := True\<rparr>"
    using assms build_layers_succeeds [OF ls] p by simp
  show "config s' = config s" "flags s' = flags s" "built s'" "edge_dim s' = ed"
    by (simp_all add: s' config_def flags_def)
  have "list_all (\<lambda>l. Some (layer_op l) = op_of (conv_type s) \<and>
                       layer_edge_dim l = (if conv_type s = ''gine'' then ed else None)) ls"
    using bl by blast
  then show "stack_ok s' F" using bl
    by (cases "conv_type s = ''gine''") (simp_all add: s' stack_ok_def)
  show "map layer_id (convs s') = [next_id s ..< next_id s + length (hidden_dims s)]"
    using bl by (simp add: s')
  show "readout s' = Some (Linear (next_id s + length (hidden_dims s)) (sum_list (hidden_dims s)) (out_dim s))"
    by (simp add: s' len)
  show "0 \<le> dropout_p s \<and> dropout_p s \<le> 1" by (rule p)
qed

lemma lazy_build_eq:
  "lazy_build s x ea =
     (if conv_type s = ''gine'' \<and> ea = None \<and> gine_missing_edge_policy s \<noteq> ''zeros''
      then (Inl RuntimeError_edge_dim, s)
      else build_layers s (size_last x) (inferred_edge_dim s ea))"
proof (cases "conv_type s = ''gine''")
  case False
  then show ?thesis by (simp add: lazy_build_def inferred_edge_dim_def Let_def)
next
  case True
  show ?thesis
  proof (cases ea)
    case (Some t)
    then show ?thesis using True by (simp add: lazy_build_def inferred_edge_dim_def Let_def)
  next
    case None
    then show ?thesis using True by (simp add: lazy_build_def inferred_edge_dim_def Let_def)
  qed
qed

lemma lazy_build_missing:
  "conv_type s = ''gine'' \<and> ea = None \<and> gine_missing_edge_policy s \<noteq> ''zeros'' \<Longrightarrow>
   lazy_build s x ea = (Inl RuntimeError_edge_dim, s)"
  unfolding lazy_build_eq by (rule if_P)

lemma lazy_build_builds:
  "\<not> (conv_type s = ''gine'' \<and> ea = None \<and> gine_missing_edge_policy s \<noteq> ''zeros'') \<Longrightarrow>
   lazy_build s x ea = build_layers s (size_last x) (inferred_edge_dim s ea)"
  unfolding lazy_build_eq by (rule if_not_P)

lemma lazy_build_Inl:
  assumes "lazy_build s x ea = (Inl e, s')"
  shows "config s' = config s" and "flags s' = flags s" and "built s' = built s"
    and "readout s' = readout s" and "edge_dim s' = edge_dim s"
proof -
  have "config s' = config s \<and> flags s' = flags s \<and> built s' = built s \<and>
    readout s' = readout s \<and> edge_dim s' = edge_dim s"
  proof (cases "conv_type s = ''gine'' \<and> ea = None \<and> gine_missing_edge_policy s \<noteq> ''zeros''")
    case True
    have "s' = s" using assms unfolding lazy_build_missing [OF True] by simp
    then show ?thesis by simp
  next
    case False
    have b: "build_layers s (size_last x) (inferred_edge_dim s ea) = (Inl e, s')"
      using assms unfolding lazy_build_builds [OF False] .
    show ?thesis using build_layers_Inl [OF b] by simp
  qed
  then show "config s' = config s" "flags s' = flags s" "built s' = built s"
    "readout s' = readout s" "edge_dim s' = edge_dim s"
    by blast+
qed

lemma lazy_build_Inr:
  assumes "lazy_build s x ea = (Inr u, s')"
  shows "build_layers s (size_last x) (inferred_edge_dim s ea) = (Inr u, s')"
    and "\<not> (conv_type s = ''gine'' \<and> ea = None \<and> gine_missing_edge_policy s \<noteq> ''zeros'')"
proof -
  show c: "\<not> (conv_type s = ''gine'' \<and> ea = None \<and> gine_missing_edge_policy s \<noteq> ''zeros'')"
  proof
    assume a: "conv_type s = ''gine'' \<and> ea = None \<and> gine_missing_edge_policy s \<noteq> ''zeros''"
    show False using assms unfolding lazy_build_missing [OF a] by simp
  qed
  show "build_layers s (size_last x) (inferred_edge_dim s ea) = (Inr u, s')"
    using assms unfolding lazy_build_builds [OF c] .
qed

subsection \<open>The forward pass, case by case\<close>

lemma forward_adapt_error:
  assumes "prepare_inputs (float_ops ext) s d = (Inl e, s1, ns)"
  shows "forward ext s d = \<lparr>f_result = Inl e, f_state = s1, f_notices = ns, f_calls = []\<rparr>"
  using assms by (simp add: forward_def)

lemma forward_build_error:
  assumes "prepare_inputs (float_ops ext) s d = (Inr (x, ei, ea, ew, b), s1, ns)"
    and "\<not> built s1" and "lazy_build s1 x ea = (Inl e, s2)"
  shows "forward ext s d = \<lparr>f_result = Inl e, f_state = s2, f_notices = ns, f_calls = []\<rparr>"
  using assms by (simp add: forward_def)

lemma forward_run:
  assumes "prepare_inputs (float_ops ext) s d = (Inr (x, ei, ea, ew, b), s1, ns)"
    and "(if built s1 then (Inr (), s1) else lazy_build s1 x ea) = (Inr u, s2)"
    and "run_convs ext (dropout_p s2) (convs s2) x ei (fill_edge_attr s2 ei ea) ew = (r, calls)"
  shows "forward ext s d =
           \<lparr>f_result = (case r of Inl e \<Rightarrow> Inl e | Inr outs \<Rightarrow> read_out ext s2 outs b),
            f_state = s2, f_notices = ns, f_calls = calls\<rparr>"
  using assms by (cases r) (simp_all add: forward_def)

lemma forward_cases [case_names adapt_error build_error run]:
  obtains
    (adapt_error) e s1 ns where
      "prepare_inputs (float_ops ext) s d = (Inl e, s1, ns)"
      "forward ext s d = \<lparr>f_result = Inl e, f_state = s1, f_notices = ns, f_calls = []\<rparr>"
  | (build_error) x ei ea ew b s1 ns e s2 where
      "prepare_inputs (float_ops ext) s d = (Inr (x, ei, ea, ew, b), s1, ns)" "\<not> built s1"
      "lazy_build s1 x ea = (Inl e, s2)"
      "forward ext s d = \<lparr>f_result = Inl e, f_state = s2, f_notices = ns, f_calls = []\<rparr>"
  | (run) x ei ea ew b s1 ns s2 r calls where
      "prepare_inputs (float_ops ext) s d = (Inr (x, ei, ea, ew, b), s1, ns)"
      "(built s1 \<and> s2 = s1) \<or> (\<not> built s1 \<and> lazy_build s1 x ea = (Inr (), s2))"
      "run_convs ext (dropout_p s2) (convs s2) x ei (fill_edge_attr s2 ei ea) ew = (r, calls)"
      "forward ext s d =
         \<lparr>f_result = (case r of Inl e \<Rightarrow> Inl e | Inr outs \<Rightarrow> read_out ext s2 outs b),
          f_state = s2, f_notices = ns, f_calls = calls\<rparr>"
proof -
  obtain res s1 ns where p: "prepare_inputs (float_ops ext) s d = (res, s1, ns)"
    by (cases "prepare_inputs (float_ops ext) s d") auto
  show thesis
  proof (cases res)
    case (Inl e)
    show thesis using adapt_error [of e s1 ns] forward_adapt_error [of ext s d e s1 ns] p Inl
      by simp
  next
    case (Inr t)
    obtain x ei ea ew b where t: "t = (x, ei, ea, ew, b)" by (cases t) auto
    note p' = p [unfolded Inr t]
    obtain r2 s2 where l: "(if built s1 then (Inr (), s1) else lazy_build s1 x ea) = (r2, s2)"
      by (cases "if built s1 then (Inr (), s1) else lazy_build s1 x ea") auto
    show thesis
    proof (cases r2)
      case (Inl e)
      then have nb: "\<not> built s1" and lb: "lazy_build s1 x ea = (Inl e, s2)"
        using l by (auto split: if_splits)
      show thesis using build_error [OF p' nb lb] forward_build_error [OF p' nb lb] by simp
    next
      case (Inr u)
      obtain r calls where
        rc: "run_convs ext (dropout_p s2) (convs s2) x ei (fill_edge_attr s2 ei ea) ew = (r, calls)"
        by (cases "run_convs ext (dropout_p s2) (convs s2) x ei (fill_edge_attr s2 ei ea) ew") auto
      have l': "(if built s1 then (Inr (), s1) else lazy_build s1 x ea) = (Inr u, s2)"
        using l Inr by simp
      have alt: "(built s1 \<and> s2 = s1) \<or> (\<not> built s1 \<and> lazy_build s1 x ea = (Inr (), s2))"
        using l' by (cases "built s1") simp_all
      show thesis using run [OF p' alt rc] forward_run [OF p' l' rc] by simp
    qed
  qed
qed

lemma prepare_inputs_notices:
  assumes "prepare_inputs fp s d = (r, s1, ns)"
  shows "ns = (if data_edge_v d \<noteq> None \<and> \<not> warned_edge_v_ignored s then [Edge_v_ignored] else []) @
      (if derivation_fails fp s d \<and> \<not> warned_edge_ignored s then [Gcn_weight_failed] else []) @
      (if attr_dropped s d \<and> \<not> warned_edge_ignored s then [Edge_attr_ignored (upper (conv_type s))] else [])"
  using assms unfolding prepare_inputs_eq by simp

lemma forward_notices:
  "f_notices (forward ext s d) =
     (if data_edge_v d \<noteq> None \<and> \<not> warned_edge_v_ignored s then [Edge_v_ignored] else []) @
     (if derivation_fails (float_ops ext) s d \<and> \<not> warned_edge_ignored s then [Gcn_weight_failed] else []) @
     (if attr_dropped s d \<and> \<not> warned_edge_ignored s then [Edge_attr_ignored (upper (conv_type s))] else [])"
proof (cases rule: forward_cases [of ext s d])
  case (adapt_error e s1 ns)
  show ?thesis unfolding adapt_error(2) using prepare_inputs_notices [OF adapt_error(1)] by simp
next
  case (build_error x ei ea ew b s1 ns e s2)
  show ?thesis unfolding build_error(4) using prepare_inputs_notices [OF build_error(1)] by simp
next
  case (run x ei ea ew b s1 ns s2 r calls)
  show ?thesis unfolding run(4) using prepare_inputs_notices [OF run(1)] by simp
qed

lemma forward_config_flags:
  "config (f_state (forward ext s d)) = config s"
  "warned_edge_v_ignored (f_state (forward ext s d)) = (warned_edge_v_ignored s \<or> data_edge_v d \<noteq> None)"
  "warned_edge_ignored (f_state (forward ext s d)) =
     (warned_edge_ignored s \<or> derivation_fails (float_ops ext) s d \<or> attr_dropped s d)"
proof -
  have "config (f_state (forward ext s d)) = config s \<and>
    flags (f_state (forward ext s d)) =
      (warned_edge_ignored s \<or> derivation_fails (float_ops ext) s d \<or> attr_dropped s d,
       warned_edge_v_ignored s \<or> data_edge_v d \<noteq> None)"
  proof (cases rule: forward_cases [of ext s d])
    case (adapt_error e s1 ns)
    show ?thesis unfolding adapt_error(2) using prepare_inputs_keeps [OF adapt_error(1)]
      by (simp add: flags_def)
  next
    case (build_error x ei ea ew b s1 ns e s2)
    show ?thesis unfolding build_error(4)
      using prepare_inputs_keeps [OF build_error(1)] lazy_build_Inl [OF build_error(3)]
      by (simp add: flags_def)
  next
    case (run x ei ea ew b s1 ns s2 r calls)
    from run(2) have "config s2 = config s1 \<and> flags s2 = flags s1"
    proof
      assume "built s1 \<and> s2 = s1" then show ?thesis by simp
    next
      assume "\<not> built s1 \<and> lazy_build s1 x ea = (Inr (), s2)"
      then have "build_layers s1 (size_last x) (inferred_edge_dim s1 ea) = (Inr (), s2)"
        using lazy_build_Inr by blast
      then show ?thesis using build_layers_Inr(1,2) by blast
    qed
    then show ?thesis unfolding run(4) using prepare_inputs_keeps [OF run(1)]
      by (simp add: flags_def)
  qed
  then show "config (f_state (forward ext s d)) = config s"
    "warned_edge_v_ignored (f_state (forward ext s d)) = (warned_edge_v_ignored s \<or> data_edge_v d \<noteq> None)"
    "warned_edge_ignored (f_state (forward ext s d)) =
       (warned_edge_ignored s \<or> derivation_fails (float_ops ext) s d \<or> attr_dropped s d)"
    by (simp_all add: flags_def)
qed

lemma forward_built_keeps_stack:
  assumes "built s"
  shows "stack (f_state (forward ext s d)) = stack s"
proof (cases rule: forward_cases [of ext s d])
  case (adapt_error e s1 ns)
  show ?thesis unfolding adapt_error(2) using prepare_inputs_keeps [OF adapt_error(1)] by simp
next
  case (build_error x ei ea ew b s1 ns e s2)
  have "built s1" using prepare_inputs_keeps(2) [OF build_error(1)] assms by (simp add: stack_def)
  then show ?thesis using build_error(2) by simp
next
  case (run x ei ea ew b s1 ns s2 r calls)
  have "built s1" using prepare_inputs_keeps(2) [OF run(1)] assms by (simp add: stack_def)
  then have "s2 = s1" using run(2) by simp
  then show ?thesis unfolding run(4) using prepare_inputs_keeps [OF run(1)] by simp
qed

text \<open>A call that leaves an unbuilt instance built has built the stack for its batch.\<close>

lemma forward_builds:
  assumes "\<not> built s" and "built (f_state (forward ext s d))"
  shows "stack_ok (f_state (forward ext s d)) (size_last (data_x d))"
    and "map layer_id (convs (f_state (forward ext s d))) =
           [next_id s ..< next_id s + length (hidden_dims s)]"
    and "readout (f_state (forward ext s d)) =
           Some (Linear (next_id s + length (hidden_dims s)) (sum_list (hidden_dims s)) (out_dim s))"
proof -
  have "stack_ok (f_state (forward ext s d)) (size_last (data_x d)) \<and>
    map layer_id (convs (f_state (forward ext s d))) =
           [next_id s ..< next_id s + length (hidden_dims s)] \<and>
    readout (f_state (forward ext s d)) =
           Some (Linear (next_id s + length (hidden_dims s)) (sum_list (hidden_dims s)) (out_dim s))"
  proof (cases rule: forward_cases [of ext s d])
    case (adapt_error e s1 ns)
    have "built s1 = built s" using prepare_inputs_keeps(2) [OF adapt_error(1)] by (simp add: stack_def)
    then show ?thesis using assms unfolding adapt_error(2) by simp
  next
    case (build_error x ei ea ew b s1 ns e s2)
    have "built s2 = built s1" using lazy_build_Inl [OF build_error(3)] by simp
    then show ?thesis using assms build_error(2) unfolding build_error(4) by simp
  next
    case (run x ei ea ew b s1 ns s2 r calls)
    have k: "stack s1 = stack s" "config s1 = config s" using prepare_inputs_keeps [OF run(1)] by simp_all
    then have nb: "\<not> built s1" using assms(1) by (simp add: stack_def)
    then have "lazy_build s1 x ea = (Inr (), s2)" using run(2) by simp
    then have bl: "build_layers s1 (size_last x) (inferred_edge_dim s1 ea) = (Inr (), s2)"
      using lazy_build_Inr by blast
    have x: "x = data_x d" using run(1) unfolding prepare_inputs_eq by (simp split: if_splits)
    have f: "next_id s1 = next_id s" "hidden_dims s1 = hidden_dims s" "out_dim s1 = out_dim s"
      using k by (simp_all add: stack_def config_def)
    show ?thesis unfolding run(4) using build_layers_Inr(4,6,7) [OF bl] by (simp add: x f)
  qed
  then show "stack_ok (f_state (forward ext s d)) (size_last (data_x d))"
    and "map layer_id (convs (f_state (forward ext s d))) =
           [next_id s ..< next_id s + length (hidden_dims s)]"
    and "readout (f_state (forward ext s d)) =
           Some (Linear (next_id s + length (hidden_dims s)) (sum_list (hidden_dims s)) (out_dim s))"
    by blast+
qed

subsection \<open>Sequences of calls\<close>

lemma all_notices_Cons:
  "all_notices ext s (d # ds) =
     f_notices (forward ext s d) @ all_notices ext (f_state (forward ext s d)) ds"
  by (simp add: all_notices_def)

lemma all_notices_Nil: "all_notices ext s [] = []"
  by (simp add: all_notices_def)

lemma final_state_config: "config (final_state ext s ds) = config s"
  by (induction ds arbitrary: s) (simp_all add: forward_config_flags)

lemma final_state_built_keeps_stack:
  "built s \<Longrightarrow> stack (final_state ext s ds) = stack s"
proof (induction ds arbitrary: s)
  case Nil
  show ?case by simp
next
  case (Cons d ds)
  have k: "stack (f_state (forward ext s d)) = stack s"
    using forward_built_keeps_stack [OF Cons.prems] .
  then have "built (f_state (forward ext s d))" using Cons.prems by (simp add: stack_def)
  then show ?case using Cons.IH k by simp
qed

lemma derivation_fails_config: "config s' = config s \<Longrightarrow> derivation_fails fp s' d = derivation_fails fp s d"
  by (rule derivation_fails_cong) (simp_all add: config_def)

lemma attr_dropped_config: "config s' = config s \<Longrightarrow> attr_dropped s' d = attr_dropped s d"
  by (simp add: attr_dropped_def config_def)

lemma not_both: "\<not> (derivation_fails fp s d \<and> attr_dropped s d)"
  by (auto simp add: derivation_fails_def attr_dropped_def ignoring_kinds_def)

lemma edge_v_count:
  "count_list (all_notices ext s ds) Edge_v_ignored =
     (if \<not> warned_edge_v_ignored s \<and> (\<exists>d \<in> set ds. data_edge_v d \<noteq> None) then 1 else 0) \<and>
   warned_edge_v_ignored (final_state ext s ds) =
     (warned_edge_v_ignored s \<or> (\<exists>d \<in> set ds. data_edge_v d \<noteq> None))"
proof (induction ds arbitrary: s)
  case Nil
  show ?case by (simp add: all_notices_Nil)
next
  case (Cons d ds)
  note ih = Cons.IH [of "f_state (forward ext s d)"]
  show ?case
    unfolding all_notices_Cons final_state.simps count_list_append
    using ih by (auto simp add: forward_notices forward_config_flags)
qed

lemma attr_ignored_count:
  "length (filter is_attr_ignored (all_notices ext s ds)) =
     (if \<not> warned_edge_ignored s \<and> (\<exists>d \<in> set ds. attr_dropped s d) then 1 else 0) \<and>
   count_list (all_notices ext s ds) Gcn_weight_failed =
     (if \<not> warned_edge_ignored s \<and> (\<exists>d \<in> set ds. derivation_fails (float_ops ext) s d) then 1 else 0) \<and>
   warned_edge_ignored (final_state ext s ds) =
     (warned_edge_ignored s \<or> (\<exists>d \<in> set ds. derivation_fails (float_ops ext) s d \<or> attr_dropped s d))"
proof (induction ds arbitrary: s)
  case Nil
  show ?case by (simp add: all_notices_Nil)
next
  case (Cons d ds)
  define s' where "s' = f_state (forward ext s d)"
  have c: "config s' = config s" by (simp add: s'_def forward_config_flags)
  have w: "warned_edge_ignored s' = (warned_edge_ignored s \<or> derivation_fails (float_ops ext) s d \<or> attr_dropped s d)"
    by (simp add: s'_def forward_config_flags)
  have cong: "\<And>d. derivation_fails (float_ops ext) s' d = derivation_fails (float_ops ext) s d" "\<And>d. attr_dropped s' d = attr_dropped s d"
    using c derivation_fails_config attr_dropped_config by blast+
  have gcn_or: "(\<exists>d \<in> set ds. derivation_fails (float_ops ext) s d) \<Longrightarrow> (\<forall>d'. \<not> attr_dropped s d')"
    "(\<exists>d \<in> set ds. attr_dropped s d) \<Longrightarrow> (\<forall>d'. \<not> derivation_fails (float_ops ext) s d')"
    by (auto simp add: derivation_fails_def attr_dropped_def ignoring_kinds_def)
  note ih = Cons.IH [of s', unfolded cong w]
  have n: "f_notices (forward ext s d) =
     (if data_edge_v d \<noteq> None \<and> \<not> warned_edge_v_ignored s then [Edge_v_ignored] else []) @
     (if derivation_fails (float_ops ext) s d \<and> \<not> warned_edge_ignored s then [Gcn_weight_failed] else []) @
     (if attr_dropped s d \<and> \<not> warned_edge_ignored s then [Edge_attr_ignored (upper (conv_type s))] else [])"
    by (rule forward_notices)
  have 1: "length (filter is_attr_ignored (all_notices ext s (d # ds))) =
     (if \<not> warned_edge_ignored s \<and> (\<exists>d \<in> set (d # ds). attr_dropped s d) then 1 else 0)"
    unfolding all_notices_Cons s'_def [symmetric] filter_append length_append n
    using ih not_both [of "float_ops ext" s d] gcn_or by auto
  have 2: "count_list (all_notices ext s (d # ds)) Gcn_weight_failed =
     (if \<not> warned_edge_ignored s \<and> (\<exists>d \<in> set (d # ds). derivation_fails (float_ops ext) s d) then 1 else 0)"
    unfolding all_notices_Cons s'_def [symmetric] count_list_append n
    using ih not_both [of "float_ops ext" s d] gcn_or by auto
  have 3: "warned_edge_ignored (final_state ext s (d # ds)) =
     (warned_edge_ignored s \<or> (\<exists>d \<in> set (d # ds). derivation_fails (float_ops ext) s d \<or> attr_dropped s d))"
    unfolding final_state.simps s'_def [symmetric] using ih by auto
  show ?case using 1 2 3 by blast
qed

subsection \<open>The order of the floating-point numbers, minimum and maximum\<close>

lemma fadd_NaN_right [simp]: "fadd r a NaN = NaN"
  by (cases a) simp_all

lemma fsub_NaN_right [simp]: "fsub r a NaN = NaN"
  by (simp add: fsub_def)

lemma fsub_NaN_left [simp]: "fsub r NaN b = NaN"
  by (simp add: fsub_def)

lemma fsub_Fin [simp]: "fsub r (Fin x) (Fin y) = r (x - y)"
  by (simp add: fsub_def)

lemma fle_refl: "a \<noteq> NaN \<Longrightarrow> fle a a"
  by (cases a) simp_all

lemma fle_trans: "fle a b \<Longrightarrow> fle b c \<Longrightarrow> fle a c"
  by (cases a; cases b; cases c) simp_all

lemma not_flt_fle: "a \<noteq> NaN \<Longrightarrow> b \<noteq> NaN \<Longrightarrow> \<not> flt b a \<Longrightarrow> fle a b"
  by (cases a; cases b) simp_all

lemma flt_fle: "flt a b \<Longrightarrow> fle a b"
  by (cases a; cases b) simp_all

lemma fold_fmin_NaN: "fold fmin vs NaN = NaN"
  by (induction vs) (simp_all add: fmin_def)

lemma fold_fmax_NaN: "fold fmax vs NaN = NaN"
  by (induction vs) (simp_all add: fmax_def)

lemma fold_fmin_has_NaN: "NaN \<in> set vs \<Longrightarrow> fold fmin vs v = NaN"
  by (induction vs arbitrary: v) (auto simp add: fmin_def fold_fmin_NaN)

lemma fold_fmax_has_NaN: "NaN \<in> set vs \<Longrightarrow> fold fmax vs v = NaN"
  by (induction vs arbitrary: v) (auto simp add: fmax_def fold_fmax_NaN)

lemma list_min_NaN: "NaN \<in> set m \<Longrightarrow> list_min m = NaN"
  by (cases m) (auto simp add: fold_fmin_NaN fold_fmin_has_NaN)

lemma list_max_NaN: "NaN \<in> set m \<Longrightarrow> list_max m = NaN"
  by (cases m) (auto simp add: fold_fmax_NaN fold_fmax_has_NaN)

lemma fold_fmin_least:
  "NaN \<notin> set (v # vs) \<Longrightarrow>
     fold fmin vs v \<in> set (v # vs) \<and> (\<forall>u \<in> set (v # vs). fle (fold fmin vs v) u)"
proof (induction vs arbitrary: v)
  case Nil
  then show ?case by (simp add: fle_refl)
next
  case (Cons a vs)
  have n: "a \<noteq> NaN" "v \<noteq> NaN" "NaN \<notin> set vs" using Cons.prems by auto
  have k: "fmin a v = v \<or> fmin a v = a" by (simp add: fmin_def)
  then have "NaN \<notin> set (fmin a v # vs)" using n by auto
  from Cons.IH [OF this]
  have i: "fold fmin vs (fmin a v) \<in> set (fmin a v # vs)"
    and l: "\<forall>u \<in> set (fmin a v # vs). fle (fold fmin vs (fmin a v)) u"
    by blast+
  have b: "fle (fmin a v) v" "fle (fmin a v) a"
    using n by (auto simp add: fmin_def fle_refl flt_fle not_flt_fle)
  have "fle (fold fmin vs (fmin a v)) (fmin a v)" using l by simp
  then have "fle (fold fmin vs (fmin a v)) v" "fle (fold fmin vs (fmin a v)) a"
    using b fle_trans by blast+
  then show ?case using i l k by auto
qed

lemma fold_fmax_greatest:
  "NaN \<notin> set (v # vs) \<Longrightarrow>
     fold fmax vs v \<in> set (v # vs) \<and> (\<forall>u \<in> set (v # vs). fle u (fold fmax vs v))"
proof (induction vs arbitrary: v)
  case Nil
  then show ?case by (simp add: fle_refl)
next
  case (Cons a vs)
  have n: "a \<noteq> NaN" "v \<noteq> NaN" "NaN \<notin> set vs" using Cons.prems by auto
  have k: "fmax a v = v \<or> fmax a v = a" by (simp add: fmax_def)
  then have "NaN \<notin> set (fmax a v # vs)" using n by auto
  from Cons.IH [OF this]
  have i: "fold fmax vs (fmax a v) \<in> set (fmax a v # vs)"
    and l: "\<forall>u \<in> set (fmax a v # vs). fle u (fold fmax vs (fmax a v))"
    by blast+
  have b: "fle v (fmax a v)" "fle a (fmax a v)"
    using n by (auto simp add: fmax_def fle_refl flt_fle not_flt_fle)
  have "fle (fmax a v) (fold fmax vs (fmax a v))" using l by simp
  then have "fle v (fold fmax vs (fmax a v))" "fle a (fold fmax vs (fmax a v))"
    using b fle_trans by blast+
  then show ?case using i l k by auto
qed

lemma list_min_least:
  assumes "m \<noteq> []" and "NaN \<notin> set m"
  shows "list_min m \<in> set m" and "\<forall>u \<in> set m. fle (list_min m) u"
  using assms fold_fmin_least by (cases m; simp)+

lemma list_max_greatest:
  assumes "m \<noteq> []" and "NaN \<notin> set m"
  shows "list_max m \<in> set m" and "\<forall>u \<in> set m. fle u (list_max m)"
  using assms fold_fmax_greatest by (cases m; simp)+

subsection \<open>Rounding to an integer, ties to even\<close>

lemma round_even_of_int: "round_even (of_int n) = n"
  by (simp add: round_even_def)

lemma round_even_bounds: "\<lfloor>x\<rfloor> \<le> round_even x" "round_even x \<le> \<lfloor>x\<rfloor> + 1"
  by (simp_all add: round_even_def Let_def)

lemma round_even_mono:
  assumes "x \<le> y"
  shows "round_even x \<le> round_even y"
proof (cases "\<lfloor>x\<rfloor> = \<lfloor>y\<rfloor>")
  case True
  then show ?thesis using assms by (auto simp add: round_even_def Let_def)
next
  case False
  then have "\<lfloor>x\<rfloor> + 1 \<le> \<lfloor>y\<rfloor>" using floor_mono [OF assms] by simp
  then show ?thesis using round_even_bounds(2) [of x] round_even_bounds(1) [of y] by linarith
qed

lemma round_even_near:
  assumes "\<bar>x - of_int n\<bar> < 1 / 2"
  shows "round_even x = n"
proof (cases "of_int n \<le> x")
  case True
  then have "\<lfloor>x\<rfloor> = n" using assms by (intro floor_unique) simp_all
  then show ?thesis using assms True by (simp add: round_even_def Let_def)
next
  case False
  then have "\<lfloor>x\<rfloor> = n - 1" using assms by (intro floor_unique) simp_all
  then show ?thesis using assms False by (simp add: round_even_def Let_def)
qed

lemma round_even_below_half:
  assumes "x < of_int n + 1 / 2"
  shows "round_even x \<le> n"
proof (cases "\<lfloor>x\<rfloor> = n")
  case True
  then show ?thesis using assms by (simp add: round_even_def Let_def)
next
  case False
  have "\<lfloor>x\<rfloor> \<le> n" using assms by (simp add: floor_le_iff)
  then show ?thesis using False round_even_bounds(2) [of x] by linarith
qed

lemma round_even_uminus: "round_even (- x) = - round_even x"
proof (cases "x = of_int \<lfloor>x\<rfloor>")
  case True
  then obtain n where "x = of_int n" ..
  then show ?thesis using round_even_of_int [of "- n"] by (simp add: round_even_of_int)
next
  case False
  then have f: "\<lfloor>- x\<rfloor> = - \<lfloor>x\<rfloor> - 1" by (simp add: floor_minus ceiling_altdef)
  show ?thesis using False unfolding round_even_def Let_def f by auto
qed

subsection \<open>Rounding to a binary format\<close>

lemma two_powi_pos [simp]: "0 < (2 :: real) powi k"
  by simp

lemma two_powi_nat: "0 \<le> k \<Longrightarrow> (2 :: real) powi k = of_int (2 ^ nat k)"
  by (simp add: power_int_def)

lemma two_powi_mono: "j \<le> k \<Longrightarrow> (2 :: real) powi j \<le> 2 powi k"
  by (rule power_int_increasing) simp_all

lemma two_powi_diff: "(2 :: real) powi (j - k) = 2 powi j / 2 powi k"
  by (simp add: power_int_diff)

lemma floor_log_bounds:
  assumes "0 < x"
  shows "2 powi \<lfloor>log 2 x\<rfloor> \<le> x" and "x < 2 powi (\<lfloor>log 2 x\<rfloor> + 1)"
proof -
  have "2 powr of_int \<lfloor>log 2 x\<rfloor> \<le> x"
    using le_log_iff [of 2 x "of_int \<lfloor>log 2 x\<rfloor>"] assms by simp
  then show "2 powi \<lfloor>log 2 x\<rfloor> \<le> x"
    using powr_real_of_int' [of 2 "\<lfloor>log 2 x\<rfloor>"] by simp
  have "log 2 x < of_int (\<lfloor>log 2 x\<rfloor> + 1)" by linarith
  then have "x < 2 powr of_int (\<lfloor>log 2 x\<rfloor> + 1)"
    using assms by (subst (asm) log_less_iff) simp_all
  then show "x < 2 powi (\<lfloor>log 2 x\<rfloor> + 1)"
    using powr_real_of_int' [of 2 "\<lfloor>log 2 x\<rfloor> + 1"] by simp
qed

lemma floor_log_unique:
  assumes "0 < x" and "2 powi e \<le> x" and "x < 2 powi (e + 1)"
  shows "\<lfloor>log 2 x\<rfloor> = e"
proof (rule floor_unique)
  have "2 powr of_int e \<le> x"
    using assms(2) powr_real_of_int' [of 2 e] by simp
  then show "of_int e \<le> log 2 x"
    using le_log_iff [of 2 x "of_int e"] assms(1) by simp
  have "x < 2 powr of_int (e + 1)"
    using assms(3) powr_real_of_int' [of 2 "e + 1"] by simp
  then have "log 2 x < of_int (e + 1)"
    using log_less_iff [of 2 x "of_int (e + 1)"] assms(1) by simp
  then show "log 2 x < of_int e + 1" by simp
qed

lemma floor_log_mono: "0 < x \<Longrightarrow> x \<le> y \<Longrightarrow> \<lfloor>log 2 x\<rfloor> \<le> \<lfloor>log 2 y\<rfloor>"
  by (intro floor_mono) simp

lemma on_grid_mono: "x \<le> y \<Longrightarrow> on_grid q x \<le> on_grid q y"
  unfolding on_grid_def
  by (intro mult_right_mono) (simp_all add: round_even_mono divide_right_mono)

lemma on_grid_fix: "on_grid q (of_int n * 2 powi q) = of_int n * 2 powi q"
  by (simp add: on_grid_def round_even_of_int)

lemma two_powi_split: "q \<le> k \<Longrightarrow> (2 :: real) powi k = of_int (2 ^ nat (k - q)) * 2 powi q"
proof -
  assume "q \<le> k"
  then have "(2 :: real) powi k / 2 powi q = of_int (2 ^ nat (k - q))"
    using two_powi_nat [of "k - q"] by (simp add: two_powi_diff)
  then show ?thesis by (simp add: field_simps)
qed

lemma on_grid_power: "q \<le> k \<Longrightarrow> on_grid q (2 powi k) = 2 powi k"
  using on_grid_fix [of q "2 ^ nat (k - q)"] two_powi_split [of q k] by simp

lemma on_grid_0: "on_grid q 0 = 0"
  by (simp add: on_grid_def round_even_def)

lemma on_grid_uminus: "on_grid q (- x) = - on_grid q x"
  by (simp add: on_grid_def round_even_uminus)

lemma ulp_exp_uminus: "ulp_exp p emax (- x) = ulp_exp p emax x"
  by (simp add: ulp_exp_def)

lemma overflow_from_pos: "0 < overflow_from p emax"
proof -
  have "(2 :: real) powi (emax - int p) < 2 powi (emax + 1)"
    by (rule power_int_strict_increasing) simp_all
  then show ?thesis by (simp add: overflow_from_def)
qed

lemma ieee_rnd_uminus: "ieee_rnd p emax (- x) = fneg (ieee_rnd p emax x)"
  using overflow_from_pos [of p emax]
  by (simp add: ieee_rnd_def ulp_exp_uminus on_grid_uminus)

lemma ieee_rnd_grid:
  "x \<noteq> 0 \<Longrightarrow> \<bar>x\<bar> < overflow_from p emax \<Longrightarrow> ieee_rnd p emax x = Fin (on_grid (ulp_exp p emax x) x)"
  by (simp add: ieee_rnd_def)

lemma ieee_rnd_not_NaN: "ieee_rnd p emax x \<noteq> NaN"
  by (simp add: ieee_rnd_def)

lemma fle_fneg: "fle (fneg a) (fneg b) = fle b a"
  by (cases a; cases b) simp_all

lemma ulp_exp_least: "2 - emax - int p \<le> ulp_exp p emax x"
  by (simp add: ulp_exp_def)

lemma ulp_exp_mono:
  assumes "0 < x" and "x \<le> y"
  shows "ulp_exp p emax x \<le> ulp_exp p emax y"
  using floor_log_mono [OF assms] assms by (simp add: ulp_exp_def)

lemma below_next_binade:
  assumes "0 < x"
  shows "x < 2 powi (ulp_exp p emax x + int p)"
proof -
  have "\<lfloor>log 2 x\<rfloor> + 1 \<le> ulp_exp p emax x + int p"
    using assms by (simp add: ulp_exp_def)
  then have "(2 :: real) powi (\<lfloor>log 2 x\<rfloor> + 1) \<le> 2 powi (ulp_exp p emax x + int p)"
    by (rule two_powi_mono)
  then show ?thesis using floor_log_bounds(2) [OF assms] by simp
qed

lemma above_binade:
  assumes "0 < x" and "2 - emax - int p < ulp_exp p emax x"
  shows "2 powi (ulp_exp p emax x + int p - 1) \<le> x"
proof -
  have "ulp_exp p emax x + int p - 1 = \<lfloor>log 2 x\<rfloor>"
    using assms by (simp add: ulp_exp_def max_def split: if_splits)
  then show ?thesis using floor_log_bounds(1) [OF assms(1)] by simp
qed

lemma grid_pos_mono:
  assumes p: "1 \<le> p" and x: "0 < x" and xy: "x \<le> y"
  shows "on_grid (ulp_exp p emax x) x \<le> on_grid (ulp_exp p emax y) y"
proof (cases "ulp_exp p emax x = ulp_exp p emax y")
  case True
  then show ?thesis using on_grid_mono [OF xy] by simp
next
  case False
  define qx where "qx = ulp_exp p emax x"
  define qy where "qy = ulp_exp p emax y"
  have lt: "qx < qy" using False ulp_exp_mono [OF x xy, of p emax] by (simp add: qx_def qy_def)
  have y: "0 < y" using x xy by simp
  have "2 - emax - int p < qy" using lt ulp_exp_least [of emax p x] by (simp add: qx_def)
  then have "2 powi (qy + int p - 1) \<le> y" unfolding qy_def by (rule above_binade [OF y])
  then have "on_grid qy (2 powi (qy + int p - 1)) \<le> on_grid qy y" by (rule on_grid_mono)
  then have a: "2 powi (qy + int p - 1) \<le> on_grid qy y"
    using p by (simp add: on_grid_power)
  have "x \<le> 2 powi (qx + int p)" using below_next_binade [OF x, of p emax] by (simp add: qx_def)
  then have "on_grid qx x \<le> on_grid qx (2 powi (qx + int p))" by (rule on_grid_mono)
  then have b: "on_grid qx x \<le> 2 powi (qx + int p)" by (simp add: on_grid_power)
  have "(2 :: real) powi (qx + int p) \<le> 2 powi (qy + int p - 1)"
    using lt by (intro two_powi_mono) simp
  then show ?thesis using a b by (simp add: qx_def qy_def)
qed

lemma ieee_rnd_mono_pos:
  assumes "1 \<le> p" and "0 < x" and "x \<le> y"
  shows "fle (ieee_rnd p emax x) (ieee_rnd p emax y)"
proof (cases "overflow_from p emax \<le> y")
  case True
  then have "ieee_rnd p emax y = PInf" using assms by (simp add: ieee_rnd_def)
  then show ?thesis using ieee_rnd_not_NaN [of p emax x] by (cases "ieee_rnd p emax x") simp_all
next
  case False
  then have "ieee_rnd p emax x = Fin (on_grid (ulp_exp p emax x) x)"
    "ieee_rnd p emax y = Fin (on_grid (ulp_exp p emax y) y)"
    using assms by (simp_all add: ieee_rnd_grid)
  then show ?thesis using grid_pos_mono [OF assms] by simp
qed

lemma ieee_rnd_nonneg:
  assumes "0 \<le> x"
  shows "fle (Fin 0) (ieee_rnd p emax x)"
proof -
  have "0 \<le> on_grid (ulp_exp p emax x) x"
    using on_grid_mono [OF assms, of "ulp_exp p emax x"] by (simp add: on_grid_0)
  then show ?thesis using assms overflow_from_pos [of p emax] by (simp add: ieee_rnd_def on_grid_def)
qed

lemma fneg_fneg [simp]: "fneg (fneg a) = a"
  by (cases a) simp_all

lemma ieee_rnd_nonpos:
  assumes "x \<le> 0"
  shows "fle (ieee_rnd p emax x) (Fin 0)"
proof -
  have "fle (Fin 0) (ieee_rnd p emax (- x))" using assms by (intro ieee_rnd_nonneg) simp
  then have "fle (fneg (ieee_rnd p emax (- x))) (fneg (Fin 0))" by (simp only: fle_fneg)
  then show ?thesis by (simp add: ieee_rnd_uminus)
qed

lemma ieee_rnd_mono:
  assumes "1 \<le> p" and "x \<le> y"
  shows "fle (ieee_rnd p emax x) (ieee_rnd p emax y)"
proof -
  consider "0 < x" | "y < 0" | "x \<le> 0" "0 \<le> y" by linarith
  then show ?thesis
  proof cases
    case 1
    then show ?thesis using assms by (intro ieee_rnd_mono_pos)
  next
    case 2
    then have "fle (ieee_rnd p emax (- y)) (ieee_rnd p emax (- x))"
      using assms by (intro ieee_rnd_mono_pos) simp_all
    then show ?thesis by (simp add: ieee_rnd_uminus fle_fneg)
  next
    case 3
    then show ?thesis using ieee_rnd_nonpos ieee_rnd_nonneg fle_trans by blast
  qed
qed

text \<open>The numbers of the format round to themselves.\<close>

lemma ieee_rnd_exact_pos:
  assumes p: "1 \<le> p" and n: "0 < n" "n \<le> 2 ^ p" and k: "2 - emax - int p \<le> k"
    and o: "of_int n * 2 powi k < overflow_from p emax"
  shows "ieee_rnd p emax (of_int n * 2 powi k) = Fin (of_int n * 2 powi k)"
proof -
  define v :: real where "v = of_int n * 2 powi k"
  define q where "q = ulp_exp p emax v"
  have v: "0 < v" using n(1) by (simp add: v_def)
  have pw: "(2 :: real) powi (k + int p) = 2 ^ p * 2 powi k"
    by (simp add: power_int_add)
  have "\<exists>j. v = of_int j * 2 powi q"
  proof (cases "n = 2 ^ p")
    case True
    then have vp: "v = 2 powi (k + int p)" by (simp add: v_def pw)
    have "\<lfloor>log 2 v\<rfloor> = k + int p"
      by (rule floor_log_unique [OF v]) (simp_all add: vp power_int_add)
    then have "q = k + 1" using k v by (simp add: q_def ulp_exp_def)
    then have "q \<le> k + int p" using p by simp
    from two_powi_split [OF this] show ?thesis unfolding vp by blast
  next
    case False
    then have "n < 2 ^ p" using n(2) by simp
    then have "real_of_int n < 2 ^ p" by (metis of_int_less_iff of_int_numeral of_int_power)
    then have "v < 2 powi (k + int p)" by (simp add: v_def pw)
    then have "(2 :: real) powi \<lfloor>log 2 v\<rfloor> < 2 powi (k + int p)"
      using floor_log_bounds(1) [OF v] by simp
    then have "\<lfloor>log 2 v\<rfloor> < k + int p"
      using two_powi_mono [of "k + int p" "\<lfloor>log 2 v\<rfloor>"] by linarith
    then have "q \<le> k" using k v by (simp add: q_def ulp_exp_def)
    from two_powi_split [OF this] have "v = of_int (n * 2 ^ nat (k - q)) * 2 powi q"
      by (simp add: v_def)
    then show ?thesis by blast
  qed
  then obtain j where "v = of_int j * 2 powi q" ..
  then have "on_grid q v = v" using on_grid_fix [of q j] by simp
  then show ?thesis using v o ieee_rnd_grid [of v p emax] by (simp add: v_def [symmetric] q_def)
qed

lemma ieee_rnd_exact:
  assumes p: "1 \<le> p" and n: "\<bar>n\<bar> \<le> 2 ^ p" and k: "2 - emax - int p \<le> k"
    and o: "\<bar>of_int n * 2 powi k\<bar> < overflow_from p emax"
  shows "ieee_rnd p emax (of_int n * 2 powi k) = Fin (of_int n * 2 powi k)"
proof -
  consider "n = 0" | "0 < n" | "n < 0" by linarith
  then show ?thesis
  proof cases
    case 1
    then show ?thesis using overflow_from_pos [of p emax] by (simp add: ieee_rnd_def)
  next
    case 2
    then show ?thesis using ieee_rnd_exact_pos [OF p _ _ k, of n] n o by (simp add: abs_mult)
  next
    case 3
    then have "ieee_rnd p emax (of_int (- n) * 2 powi k) = Fin (of_int (- n) * 2 powi k)"
      using n o by (intro ieee_rnd_exact_pos [OF p _ _ k]) (simp_all add: abs_mult)
    then have "fneg (ieee_rnd p emax (of_int n * 2 powi k)) = Fin (- (of_int n * 2 powi k))"
      using ieee_rnd_uminus [of p emax "of_int n * 2 powi k"] by simp
    then show ?thesis by (cases "ieee_rnd p emax (of_int n * 2 powi k)") simp_all
  qed
qed

lemma grid_below_overflow:
  assumes p: "1 \<le> p" and m: "1 \<le> emax" and x: "0 < x" "x < overflow_from p emax"
  shows "on_grid (ulp_exp p emax x) x < overflow_from p emax"
proof -
  define q where "q = ulp_exp p emax x"
  define qt where "qt = emax - int p + 1"
  have ov: "overflow_from p emax = (of_int (2 ^ p - 1) + 1 / 2) * 2 powi qt"
  proof -
    have "(2 :: real) powi (emax + 1) = 2 ^ p * 2 powi qt"
      using power_int_add [of "2 :: real" "int p" qt] by (simp add: qt_def)
    moreover have "(2 :: real) powi qt = 2 * 2 powi (emax - int p)"
      using power_int_add [of "2 :: real" 1 "emax - int p"] by (simp add: qt_def add.commute)
    ultimately show ?thesis by (simp add: overflow_from_def algebra_simps)
  qed
  have big: "(2 :: real) powi emax < overflow_from p emax"
  proof -
    have "(2 :: real) powi (emax - int p) < 2 powi emax"
      using p by (intro power_int_strict_increasing) simp_all
    moreover have "(2 :: real) powi (emax + 1) = 2 * 2 powi emax"
      by (simp add: power_int_add)
    ultimately show ?thesis by (simp add: overflow_from_def)
  qed
  consider "q < qt" | "q = qt" | "qt < q" by linarith
  then show ?thesis
  proof cases
    case 1
    have "x \<le> 2 powi (q + int p)" using below_next_binade [OF x(1), of p emax] by (simp add: q_def)
    then have "on_grid q x \<le> on_grid q (2 powi (q + int p))" by (rule on_grid_mono)
    then have "on_grid q x \<le> 2 powi (q + int p)" by (simp add: on_grid_power)
    moreover have "(2 :: real) powi (q + int p) \<le> 2 powi emax"
      using 1 by (intro two_powi_mono) (simp add: qt_def)
    ultimately show ?thesis using big by (simp add: q_def)
  next
    case 2
    have "x / 2 powi q < of_int (2 ^ p - 1) + 1 / 2"
      using x(2) unfolding ov 2 by (simp add: field_simps)
    then have "round_even (x / 2 powi q) \<le> 2 ^ p - 1" by (rule round_even_below_half)
    then have "real_of_int (round_even (x / 2 powi q)) \<le> of_int (2 ^ p - 1)"
      by (simp only: of_int_le_iff)
    then have "on_grid q x \<le> of_int (2 ^ p - 1) * 2 powi qt"
      unfolding on_grid_def 2 by (intro mult_right_mono) simp_all
    also have "\<dots> < overflow_from p emax" unfolding ov by (simp add: algebra_simps)
    finally show ?thesis by (simp add: q_def)
  next
    case 3
    have "2 - emax - int p < q" using 3 m by (simp add: qt_def)
    then have "2 powi (q + int p - 1) \<le> x" unfolding q_def by (rule above_binade [OF x(1)])
    moreover have "(2 :: real) powi (emax + 1) \<le> 2 powi (q + int p - 1)"
      using 3 by (intro two_powi_mono) (simp add: qt_def)
    moreover have "overflow_from p emax < 2 powi (emax + 1)" by (simp add: overflow_from_def)
    ultimately show ?thesis using x(2) by simp
  qed
qed

lemma ieee_rnd_idem_pos:
  assumes p: "1 \<le> p" and m: "1 \<le> emax" and x: "0 < x" and r: "ieee_rnd p emax x = Fin v"
  shows "ieee_rnd p emax v = Fin v"
proof -
  define q where "q = ulp_exp p emax x"
  define n where "n = round_even (x / 2 powi q)"
  have o: "x < overflow_from p emax" using r x by (simp add: ieee_rnd_def split: if_splits)
  then have v: "v = of_int n * 2 powi q"
    using r x ieee_rnd_grid [of x p emax] by (simp add: on_grid_def q_def n_def)
  have "round_even 0 \<le> n" unfolding n_def using x by (intro round_even_mono) simp
  then have n0: "0 \<le> n" by (simp add: round_even_def)
  have "x / 2 powi q \<le> of_int (2 ^ p)"
    using below_next_binade [OF x, of p emax] by (simp add: q_def power_int_add field_simps)
  then have "n \<le> round_even (of_int (2 ^ p))" unfolding n_def by (rule round_even_mono)
  then have n1: "n \<le> 2 ^ p" by (simp only: round_even_of_int)
  have vo: "v < overflow_from p emax"
    using grid_below_overflow [OF p m x o] by (simp add: v on_grid_def q_def n_def)
  show ?thesis
  proof (cases "n = 0")
    case True
    then show ?thesis using overflow_from_pos [of p emax] by (simp add: v ieee_rnd_def)
  next
    case False
    then have "0 < n" using n0 by simp
    from ieee_rnd_exact_pos [OF p this n1 _ vo [unfolded v]] show ?thesis
      using ulp_exp_least [of emax p x] by (simp add: v q_def)
  qed
qed

lemma ieee_rnd_idem:
  assumes p: "1 \<le> p" and m: "1 \<le> emax" and r: "ieee_rnd p emax x = Fin v"
  shows "ieee_rnd p emax v = Fin v"
proof -
  consider "x = 0" | "0 < x" | "x < 0" by linarith
  then show ?thesis
  proof cases
    case 1
    then show ?thesis using r overflow_from_pos [of p emax] by (simp add: ieee_rnd_def)
  next
    case 2
    then show ?thesis using r by (intro ieee_rnd_idem_pos [OF p m])
  next
    case 3
    have "ieee_rnd p emax (- x) = Fin (- v)" using r by (simp add: ieee_rnd_uminus)
    then have "ieee_rnd p emax (- v) = Fin (- v)" using 3 by (intro ieee_rnd_idem_pos [OF p m, of "- x"]) simp_all
    then have "fneg (ieee_rnd p emax v) = Fin (- v)" by (simp add: ieee_rnd_uminus)
    then show ?thesis by (cases "ieee_rnd p emax v") simp_all
  qed
qed

lemma overflow_above_emax:
  assumes "1 \<le> p"
  shows "(2 :: real) powi emax < overflow_from p emax"
proof -
  have "(2 :: real) powi (emax - int p) < 2 powi emax"
    using assms by (intro power_int_strict_increasing) simp_all
  moreover have "(2 :: real) powi (emax + 1) = 2 * 2 powi emax"
    by (simp add: power_int_add)
  ultimately show ?thesis by (simp add: overflow_from_def)
qed

lemma ieee_rnd_0: "ieee_rnd p emax 0 = Fin 0"
  using overflow_from_pos [of p emax] by (simp add: ieee_rnd_def)

lemma ieee_rnd_1:
  assumes "1 \<le> p" and "1 \<le> emax"
  shows "ieee_rnd p emax 1 = Fin 1"
proof -
  have "(2 :: real) powi 1 \<le> 2 powi emax" using assms(2) by (rule two_powi_mono)
  then have "1 < overflow_from p emax" using overflow_above_emax [OF assms(1), of emax] by simp
  then show ?thesis using ieee_rnd_exact [OF assms(1), of 1 emax 0] assms by simp
qed

lemma ieee_rounding_format:
  assumes "1 \<le> p" and "1 \<le> emax"
  shows "ieee_rounding \<lparr>rnd = ieee_rnd p emax, row_mean = rm\<rparr>"
  unfolding ieee_rounding_def
  using ieee_rnd_0 ieee_rnd_1 [OF assms] ieee_rnd_mono [OF assms(1)] ieee_rnd_idem [OF assms]
  by simp

lemma float32_rounding: "ieee_rounding float32"
  unfolding float32_def by (rule ieee_rounding_format) simp_all

lemma float64_rounding: "ieee_rounding float64"
  unfolding float64_def by (rule ieee_rounding_format) simp_all

text \<open>Evaluating the rounding of a number from its binade and its nearest neighbour.\<close>

lemma ieee_rnd_near:
  assumes "2 powi e \<le> \<bar>x\<bar>" and "\<bar>x\<bar> < 2 powi (e + 1)" and "1 - emax \<le> e"
    and "\<bar>x\<bar> < overflow_from p emax"
    and "\<bar>x / 2 powi (e - (int p - 1)) - of_int n\<bar> < 1 / 2"
  shows "ieee_rnd p emax x = Fin (of_int n * 2 powi (e - (int p - 1)))"
proof -
  have x: "0 < \<bar>x\<bar>" using assms(1) two_powi_pos [of e] by linarith
  have "\<lfloor>log 2 \<bar>x\<bar>\<rfloor> = e" by (rule floor_log_unique [OF x assms(1,2)])
  then have q: "ulp_exp p emax x = e - (int p - 1)" using assms(3) by (simp add: ulp_exp_def)
  show ?thesis using x assms(4) round_even_near [OF assms(5)] by (simp add: ieee_rnd_def on_grid_def q)
qed

lemma ieee_rnd_overflow: "overflow_from p emax \<le> x \<Longrightarrow> ieee_rnd p emax x = PInf"
  using overflow_from_pos [of p emax] by (simp add: ieee_rnd_def)

subsection \<open>Some numbers of \<^verbatim>\<open>float32\<close> and \<^verbatim>\<open>float64\<close>\<close>

text \<open>
  \<open>\<epsilon>\<close> is not a number of either format: in \<^verbatim>\<open>float32\<close> it is rounded to
  \<open>11258999 / 2 ^ 50\<close>, in \<^verbatim>\<open>float64\<close> to \<open>6044629098073146 / 2 ^ 79\<close>. Added to 2, to 4
  or to -1 in \<^verbatim>\<open>float32\<close> it is rounded away.
\<close>

lemma feps_float32: "feps float32 = Fin (11258999 / 2 ^ 50)"
  using ieee_rnd_near [of "- 27" eps 127 24 11258999]
  by (simp add: feps_def float32_def eps_def overflow_from_def)

lemma f32_exact:
  "ieee_rnd 24 127 1 = Fin 1" "ieee_rnd 24 127 2 = Fin 2" "ieee_rnd 24 127 4 = Fin 4"
  "ieee_rnd 24 127 8 = Fin 8" "ieee_rnd 24 127 (- 1) = Fin (- 1)" "ieee_rnd 24 127 (- 2) = Fin (- 2)"
  "ieee_rnd 24 127 (1 / 2) = Fin (1 / 2)"
  "ieee_rnd 24 127 (2 ^ 127) = Fin (2 ^ 127)"
  using ieee_rnd_exact [of 24 1 127 0] ieee_rnd_exact [of 24 1 127 1] ieee_rnd_exact [of 24 1 127 2]
    ieee_rnd_exact [of 24 1 127 3] ieee_rnd_exact [of 24 "- 1" 127 0] ieee_rnd_exact [of 24 "- 1" 127 1]
    ieee_rnd_exact [of 24 1 127 "- 1"] ieee_rnd_exact [of 24 1 127 127]
  by (simp_all add: overflow_from_def)

lemma f32_overflow: "ieee_rnd 24 127 (2 ^ 128) = PInf"
  by (rule ieee_rnd_overflow) (simp add: overflow_from_def)

lemma f32_near:
  "ieee_rnd 24 127 (2 + 11258999 / 2 ^ 50) = Fin 2"
  "ieee_rnd 24 127 (4 + 11258999 / 2 ^ 50) = Fin 4"
  "ieee_rnd 24 127 (- 1 + 11258999 / 2 ^ 50) = Fin (- 1)"
  using ieee_rnd_near [of 1 "2 + 11258999 / 2 ^ 50" 127 24 "2 ^ 23"]
    ieee_rnd_near [of 2 "4 + 11258999 / 2 ^ 50" 127 24 "2 ^ 23"]
    ieee_rnd_near [of "- 1" "- 1 + 11258999 / 2 ^ 50" 127 24 "- (2 ^ 24)"]
  by (simp_all add: overflow_from_def)

lemma float32_sel: "rnd float32 = ieee_rnd 24 127" "row_mean float32 = seq_mean (ieee_rnd 24 127)"
  by (simp_all add: float32_def)

lemma f32_tiny:
  "ieee_rnd 24 127 (- (11258999 / 2 ^ 50)) = Fin (- (11258999 / 2 ^ 50))"
  "ieee_rnd 24 127 (- (11258999 / 2 ^ 49)) = Fin (- (11258999 / 2 ^ 49))"
  using ieee_rnd_exact [of 24 "- 11258999" 127 "- 50"] ieee_rnd_exact [of 24 "- 11258999" 127 "- 49"]
  by (simp_all add: overflow_from_def)

lemmas f32 = float32_sel seq_mean_def feps_float32 f32_exact [simplified] f32_overflow [simplified]
  f32_near [simplified] f32_tiny [simplified] ieee_rnd_0

lemma float64_sel: "rnd float64 = ieee_rnd 53 1023" "row_mean float64 = seq_mean (ieee_rnd 53 1023)"
  by (simp_all add: float64_def)

lemma feps_float64: "feps float64 = Fin (6044629098073146 / 2 ^ 79)"
  using ieee_rnd_near [of "- 27" eps 1023 53 6044629098073146]
  by (simp add: feps_def float64_def eps_def overflow_from_def)

lemma f64_exact:
  "ieee_rnd 53 1023 1 = Fin 1"
  "ieee_rnd 53 1023 (2 ^ 1023) = Fin (2 ^ 1023)"
  using ieee_rnd_exact [of 53 1 1023 0] ieee_rnd_exact [of 53 1 1023 1023]
  by (simp_all add: overflow_from_def)

lemma f64_overflow: "ieee_rnd 53 1023 (2 ^ 1024) = PInf"
  by (rule ieee_rnd_overflow) (simp add: overflow_from_def)

lemmas f64 = float64_sel seq_mean_def feps_float64 f64_exact [simplified] f64_overflow [simplified] ieee_rnd_0

subsection \<open>The normaliser\<close>

lemma rnd_mono: "ieee_rounding fp \<Longrightarrow> x \<le> y \<Longrightarrow> fle (rnd fp x) (rnd fp y)"
  by (simp add: ieee_rounding_def)

lemma rnd_between:
  assumes "ieee_rounding fp" and "rnd fp a = Fin a'" and "rnd fp b = Fin b'"
    and "a \<le> x" and "x \<le> b"
  shows "\<exists>y. rnd fp x = Fin y \<and> a' \<le> y \<and> y \<le> b'"
  using rnd_mono [OF assms(1,4)] rnd_mono [OF assms(1,5)] assms(2,3)
  by (cases "rnd fp x") simp_all

lemma rnd_above:
  assumes "ieee_rounding fp" and "rnd fp a = Fin a'" and "a \<le> x"
  shows "rnd fp x = PInf \<or> (\<exists>y. rnd fp x = Fin y \<and> a' \<le> y)"
  using rnd_mono [OF assms(1,3)] assms(2)
  by (cases "rnd fp x") simp_all

lemma rnd_0: "ieee_rounding fp \<Longrightarrow> rnd fp 0 = Fin 0"
  and rnd_1: "ieee_rounding fp \<Longrightarrow> rnd fp 1 = Fin 1"
  and rnd_idem: "ieee_rounding fp \<Longrightarrow> rnd fp x = Fin v \<Longrightarrow> rnd fp v = Fin v"
  by (auto simp add: ieee_rounding_def)

lemma feps_nonneg:
  assumes "ieee_rounding fp"
  shows "feps fp = PInf \<or> (\<exists>e. feps fp = Fin e \<and> 0 \<le> e)"
  unfolding feps_def by (rule rnd_above [OF assms rnd_0 [OF assms]]) (simp add: eps_def)

text \<open>The normalised mean of one edge, as lines 40-41 compute it.\<close>

lemma auto_normalised:
  assumes c: "ieee_rounding fp"
    and g: "rnd fp (h - l) = Fin g" and e: "feps fp = Fin e" and eg: "e < g"
    and x: "l \<le> x" "x \<le> h"
  shows "\<exists>t w. fdiv (rnd fp) (fsub (rnd fp) (Fin x) (Fin l)) (fadd (rnd fp) (Fin g) (feps fp)) = Fin t \<and>
           0 \<le> t \<and> t \<le> 1 \<and> fsub (rnd fp) (Fin 1) (Fin t) = Fin w \<and> 0 \<le> w \<and> w \<le> 1"
proof -
  have e0: "0 \<le> e" using feps_nonneg [OF c] e by simp
  obtain a where a: "rnd fp (x - l) = Fin a" "0 \<le> a" "a \<le> g"
    using rnd_between [OF c rnd_0 [OF c] g, of "x - l"] x by auto
  have last: "\<exists>w. fsub (rnd fp) (Fin 1) (Fin t) = Fin w \<and> 0 \<le> w \<and> w \<le> 1" if "0 \<le> t" "t \<le> 1" for t
    using rnd_between [OF c rnd_0 [OF c] rnd_1 [OF c], of "1 - t"] that by simp
  from rnd_above [OF c rnd_idem [OF c g], of "g + e"] e0
  consider "rnd fp (g + e) = PInf" | b where "rnd fp (g + e) = Fin b" "g \<le> b" by auto
  then show ?thesis
  proof cases
    case 1
    then have "fdiv (rnd fp) (fsub (rnd fp) (Fin x) (Fin l)) (fadd (rnd fp) (Fin g) (feps fp)) = Fin 0"
      using a e by simp
    then show ?thesis using last [of 0] by simp
  next
    case 2
    have b: "0 < b" using 2(2) eg e0 by simp
    have q: "0 \<le> a / b" "a / b \<le> 1" using a b 2(2) by simp_all
    obtain t where t: "rnd fp (a / b) = Fin t" "0 \<le> t" "t \<le> 1"
      using rnd_between [OF c rnd_0 [OF c] rnd_1 [OF c] q] by blast
    have "fdiv (rnd fp) (fsub (rnd fp) (Fin x) (Fin l)) (fadd (rnd fp) (Fin g) (feps fp)) = Fin t"
      using a e 2(1) b t(1) by simp
    then show ?thesis using last [OF t(2,3)] t by simp
  qed
qed

text \<open>
  C10, as the code has it. For an edge feature tensor of shape \<open>[E, D]\<close> with \<open>D \<ge> 2\<close>, the
  normaliser in mode \<^verbatim>\<open>auto\<close> returns, for every edge, a weight in the closed interval
  \<open>[0, 1]\<close>, provided the range \<open>m_max - m_min\<close> of the row means has not overflowed to
  \<open>+inf\<close>: where the range is above \<open>\<epsilon>\<close> the weight is 1 minus the min-max-normalised
  mean, both as the tensor's arithmetic computes them and both in \<open>[0, 1]\<close>; otherwise,
  also when a mean is \<open>nan\<close>, the weight is exactly 1.
\<close>

theorem auto_weight_in_unit_interval:
  assumes "ieee_rounding fp" and "wf_tensor (T2 D rs)" and "2 \<le> D" and "i < length rs"
    and "fsub (rnd fp) (list_max (map (row_mean fp) rs)) (list_min (map (row_mean fp) rs)) \<noteq> PInf"
  shows "\<exists>ws w. edge_weight_from_attr fp (T2 D rs) ''auto'' = Inr (T1 ws) \<and> length ws = length rs \<and>
           ws ! i = Fin w \<and> 0 \<le> w \<and> w \<le> 1 \<and>
           (let m = map (row_mean fp) rs; m_min = list_min m; m_max = list_max m;
                m_norm = fdiv (rnd fp) (fsub (rnd fp) (m ! i) m_min)
                           (fadd (rnd fp) (fsub (rnd fp) m_max m_min) (feps fp))
            in if flt (feps fp) (fsub (rnd fp) m_max m_min)
               then \<exists>t. m_norm = Fin t \<and> 0 \<le> t \<and> t \<le> 1 \<and> fsub (rnd fp) (Fin 1) m_norm = Fin w
               else w = 1)"
proof -
  note c = assms(1)
  define m where "m = map (row_mean fp) rs"
  define lo where "lo = list_min m"
  define hi where "hi = list_max m"
  define rg where "rg = fsub (rnd fp) hi lo"
  define nrm where "nrm = fdiv (rnd fp) (fsub (rnd fp) (m ! i) lo) (fadd (rnd fp) rg (feps fp))"
  have len: "length m = length rs" by (simp add: m_def)
  have ne: "m \<noteq> []" and D: "D \<noteq> 1" using assms(3,4) by (auto simp add: m_def)
  have mi: "m ! i \<in> set m" using assms(4) len by simp
  have rg: "rg \<noteq> PInf" using assms(5) by (simp add: rg_def hi_def lo_def m_def)
  have ones: ?thesis if "\<not> flt (feps fp) rg"
  proof -
    have "edge_weight_from_attr fp (T2 D rs) ''auto'' = Inr (T1 (map clamp_min0 (map (\<lambda>v. Fin 1) m)))"
      using that ne D
      by (simp add: edge_weight_from_attr_def clamp_def Let_def m_def lo_def hi_def rg_def)
    moreover have "map clamp_min0 (map (\<lambda>v. Fin 1) m) ! i = Fin 1"
      using assms(4) len by simp
    ultimately show ?thesis
      using that len
      by (simp add: Let_def m_def [symmetric] lo_def [symmetric] hi_def [symmetric] rg_def [symmetric])
  qed
  show ?thesis
  proof (cases "flt (feps fp) rg")
    case False
    then show ?thesis by (rule ones)
  next
    case True
    then obtain g where g: "rg = Fin g" using rg by (cases rg; cases "feps fp") simp_all
    obtain e where e: "feps fp = Fin e" "e < g"
      using True g feps_nonneg [OF c] by auto
    have nn: "NaN \<notin> set m"
    proof
      assume "NaN \<in> set m"
      then have "lo = NaN" by (simp add: lo_def list_min_NaN)
      then show False using g by (simp add: rg_def)
    qed
    note mn = list_min_least [OF ne nn, folded lo_def]
    note mx = list_max_greatest [OF ne nn, folded hi_def]
    obtain h l where hl: "hi = Fin h" "lo = Fin l"
      using g unfolding rg_def fsub_def by (cases hi; cases lo) simp_all
    have gh: "rnd fp (h - l) = Fin g" using g hl by (simp add: rg_def)
    obtain x where x: "m ! i = Fin x" "l \<le> x" "x \<le> h"
      using mn(2) mx(2) mi hl by (cases "m ! i") force+
    from auto_normalised [OF c gh e x(2,3)] obtain t w where
      t: "nrm = Fin t" "0 \<le> t" "t \<le> 1" and w: "fsub (rnd fp) (Fin 1) (Fin t) = Fin w" "0 \<le> w" "w \<le> 1"
      unfolding nrm_def g x(1) hl by blast
    have "edge_weight_from_attr fp (T2 D rs) ''auto'' =
            Inr (T1 (map clamp_min0 (map (\<lambda>v. fsub (rnd fp) (Fin 1)
                (fdiv (rnd fp) (fsub (rnd fp) v lo) (fadd (rnd fp) rg (feps fp)))) m)))"
      using True ne D
      by (simp add: edge_weight_from_attr_def clamp_def Let_def m_def lo_def hi_def rg_def)
    moreover have "map clamp_min0 (map (\<lambda>v. fsub (rnd fp) (Fin 1)
                (fdiv (rnd fp) (fsub (rnd fp) v lo) (fadd (rnd fp) rg (feps fp)))) m) ! i = Fin w"
      using assms(4) len t(1) w by (simp add: nrm_def [symmetric])
    ultimately show ?thesis
      using True len t w
      by (simp add: Let_def m_def [symmetric] lo_def [symmetric] hi_def [symmetric]
          rg_def [symmetric] nrm_def [symmetric])
  qed
qed

theorem auto_weight_in_unit_interval_witness:
  "ieee_rounding float32 \<and>
   wf_tensor (T2 2 [[Fin 1, Fin 3], [Fin 2, Fin 6], [Fin 0, Fin 0]]) \<and> (2 :: nat) \<le> 2 \<and>
   (1 :: nat) < length [[Fin 1, Fin 3], [Fin 2, Fin 6], [Fin 0, Fin 0]] \<and>
   fsub (rnd float32) (list_max (map (row_mean float32) [[Fin 1, Fin 3], [Fin 2, Fin 6], [Fin 0, Fin 0]]))
     (list_min (map (row_mean float32) [[Fin 1, Fin 3], [Fin 2, Fin 6], [Fin 0, Fin 0]])) = Fin 4 \<and>
   edge_weight_from_attr float32 (T2 2 [[Fin 1, Fin 3], [Fin 2, Fin 6], [Fin 0, Fin 0]]) ''auto'' =
     Inr (T1 [Fin (1 / 2), Fin 0, Fin 1]) \<and>
   (\<exists>ws w. edge_weight_from_attr float32 (T2 2 [[Fin 1, Fin 3], [Fin 2, Fin 6], [Fin 0, Fin 0]]) ''auto'' =
        Inr (T1 ws) \<and> ws ! 1 = Fin w \<and> 0 \<le> w \<and> w \<le> 1)"
proof -
  have h: "wf_tensor (T2 2 [[Fin 1, Fin 3], [Fin 2, Fin 6], [Fin 0, Fin 0]])" "(2 :: nat) \<le> 2"
    "(1 :: nat) < length [[Fin 1, Fin 3], [Fin 2, Fin 6], [Fin 0, Fin 0]]"
    by simp_all
  have g: "fsub (rnd float32) (list_max (map (row_mean float32) [[Fin 1, Fin 3], [Fin 2, Fin 6], [Fin 0, Fin 0]]))
     (list_min (map (row_mean float32) [[Fin 1, Fin 3], [Fin 2, Fin 6], [Fin 0, Fin 0]])) = Fin 4"
    by (simp add: fmin_def fmax_def fsub_def f32)
  then have g': "fsub (rnd float32) (list_max (map (row_mean float32) [[Fin 1, Fin 3], [Fin 2, Fin 6], [Fin 0, Fin 0]]))
     (list_min (map (row_mean float32) [[Fin 1, Fin 3], [Fin 2, Fin 6], [Fin 0, Fin 0]])) \<noteq> PInf"
    by simp
  have v: "edge_weight_from_attr float32 (T2 2 [[Fin 1, Fin 3], [Fin 2, Fin 6], [Fin 0, Fin 0]]) ''auto'' =
     Inr (T1 [Fin (1 / 2), Fin 0, Fin 1])"
    by (simp add: edge_weight_from_attr_def clamp_def fmin_def fmax_def fsub_def f32)
  from auto_weight_in_unit_interval [OF float32_rounding h g'] obtain ws w where
    "edge_weight_from_attr float32 (T2 2 [[Fin 1, Fin 3], [Fin 2, Fin 6], [Fin 0, Fin 0]]) ''auto'' = Inr (T1 ws)"
    "ws ! 1 = Fin w" "0 \<le> w" "w \<le> 1"
    by blast
  then show ?thesis using h g v float32_rounding by blast
qed

text \<open>
  C10 as stated fails. The entries of the \<^verbatim>\<open>float32\<close> tensor \<open>[[2 ^ 127, 2 ^ 127], [0, 0]]\<close>
  are finite; the sum of its first row overflows, the mean of the row is \<open>+inf\<close>, and the
  first edge has the weight \<open>nan\<close>, from \<open>inf / inf\<close>. The same holds in \<^verbatim>\<open>float64\<close> with
  \<open>2 ^ 1023\<close>. A row of two entries has one order of summation.
\<close>

theorem auto_weight_counterexample:
  "edge_weight_from_attr float32 (T2 2 [[Fin (2 ^ 127), Fin (2 ^ 127)], [Fin 0, Fin 0]]) ''auto'' =
     Inr (T1 [NaN, Fin 1]) \<and>
   edge_weight_from_attr float64 (T2 2 [[Fin (2 ^ 1023), Fin (2 ^ 1023)], [Fin 0, Fin 0]]) ''auto'' =
     Inr (T1 [NaN, Fin 1])"
  by (simp add: edge_weight_from_attr_def clamp_def fmin_def fmax_def fsub_def f32 f64)

text \<open>
  The condition on the range cannot be dropped: when the range of the means is \<open>+inf\<close>,
  the edge with the largest mean has the weight \<open>nan\<close>.
\<close>

lemma auto_weight_nan_on_overflow:
  assumes "ieee_rounding fp" and "D \<noteq> 1" and "feps fp \<noteq> PInf"
    and "fsub (rnd fp) (list_max (map (row_mean fp) rs)) (list_min (map (row_mean fp) rs)) = PInf"
  shows "\<exists>ws. edge_weight_from_attr fp (T2 D rs) ''auto'' = Inr (T1 ws) \<and> NaN \<in> set ws"
proof -
  define m where "m = map (row_mean fp) rs"
  define lo where "lo = list_min m"
  define hi where "hi = list_max m"
  have rg: "fsub (rnd fp) hi lo = PInf" using assms(4) by (simp add: hi_def lo_def m_def)
  have ne: "m \<noteq> []" using rg by (auto simp add: hi_def lo_def)
  have nn: "NaN \<notin> set m"
  proof
    assume "NaN \<in> set m"
    then have "lo = NaN" by (simp add: lo_def list_min_NaN)
    then show False using rg by simp
  qed
  have hi: "hi \<in> set m" using list_max_greatest(1) [OF ne nn] by (simp add: hi_def)
  obtain e where e: "feps fp = Fin e" using feps_nonneg [OF assms(1)] assms(3) by blast
  define f where "f = (\<lambda>v. fsub (rnd fp) (Fin 1)
      (fdiv (rnd fp) (fsub (rnd fp) v lo) (fadd (rnd fp) (fsub (rnd fp) hi lo) (feps fp))))"
  have "edge_weight_from_attr fp (T2 D rs) ''auto'' = Inr (T1 (map clamp_min0 (map f m)))"
    using ne assms(2) rg e
    by (simp add: edge_weight_from_attr_def clamp_def Let_def m_def lo_def hi_def f_def)
  moreover have "clamp_min0 (f hi) = NaN" by (simp add: f_def rg e)
  then have "NaN \<in> set (map clamp_min0 (map f m))" using hi by force
  ultimately show ?thesis by blast
qed

lemma clamp_nonneg:
  assumes "fle (Fin 0) a"
  shows "clamp_min0 a = a"
  using assms by (cases a) simp_all

lemma clamp_nonpos:
  assumes "fle a (Fin 0)"
  shows "clamp_min0 a = Fin 0"
  using assms by (cases a) simp_all

lemma clamped_reciprocal:
  assumes "ieee_rounding fp"
  shows "clamp_min0 (fdiv (rnd fp) (Fin 1) s) =
           (case s of
              Fin d \<Rightarrow> if 0 < d then rnd fp (1 / d) else if d < 0 then Fin 0 else PInf
            | PInf \<Rightarrow> Fin 0
            | NInf \<Rightarrow> Fin 0
            | NaN \<Rightarrow> NaN)"
proof (cases s)
  case (Fin d)
  consider "0 < d" | "d < 0" | "d = 0" by linarith
  then show ?thesis
  proof cases
    case 1
    have "fle (Fin 0) (rnd fp (1 / d))"
      using rnd_mono [OF assms, of 0 "1 / d"] rnd_0 [OF assms] 1 by simp
    then show ?thesis using Fin 1 by (simp add: clamp_nonneg)
  next
    case 2
    have "fle (rnd fp (1 / d)) (Fin 0)"
      using rnd_mono [OF assms, of "1 / d" 0] rnd_0 [OF assms] 2 by simp
    then show ?thesis using Fin 2 by (simp add: clamp_nonpos)
  next
    case 3
    then show ?thesis using Fin by simp
  qed
qed simp_all

text \<open>
  C5, as the code has it. In mode \<^verbatim>\<open>mean_inv\<close> a row \<open>r\<close> of a tensor of shape \<open>[E, D]\<close>
  with \<open>D \<noteq> 1\<close> gets its weight from \<open>d = mean r + \<epsilon>\<close>, computed in the tensor's
  arithmetic with \<open>\<epsilon>\<close> rounded to the dtype: the rounded quotient \<open>1 / d\<close> when \<open>d\<close> is
  positive, 0 when \<open>d\<close> is negative, by the final clamp, \<open>+inf\<close> when \<open>d\<close> is 0, 0 when \<open>d\<close> is
  infinite, as it is when the sum of the row overflows, and \<open>nan\<close> when \<open>d\<close> is \<open>nan\<close>. A
  tensor of shape \<open>[E]\<close> or \<open>[E, 1]\<close> is not inverted: its entries are the weights,
  clamped at 0.
\<close>

theorem mean_inv_weight:
  assumes "ieee_rounding fp" and "wf_tensor t" and "i < size0 t"
  shows "\<exists>ws. edge_weight_from_attr fp t ''mean_inv'' = Inr (T1 ws) \<and> length ws = size0 t \<and>
           ws ! i =
             (case t of
                T1 w \<Rightarrow> clamp_min0 (w ! i)
              | T2 D rs \<Rightarrow>
                  if D = 1 then clamp_min0 (hd (rs ! i))
                  else (case fadd (rnd fp) (row_mean fp (rs ! i)) (feps fp) of
                          Fin d \<Rightarrow> if 0 < d then rnd fp (1 / d) else if d < 0 then Fin 0 else PInf
                        | PInf \<Rightarrow> Fin 0
                        | NInf \<Rightarrow> Fin 0
                        | NaN \<Rightarrow> NaN))"
proof (cases t)
  case (T1 w)
  then show ?thesis using assms(3) by (simp add: edge_weight_from_attr_def clamp_def)
next
  case (T2 D rs)
  show ?thesis
  proof (cases "D = 1")
    case True
    then show ?thesis using T2 assms(3) by (simp add: edge_weight_from_attr_def clamp_def)
  next
    case False
    then show ?thesis
      using T2 assms(3) clamped_reciprocal [OF assms(1)]
      by (simp add: edge_weight_from_attr_def clamp_def)
  qed
qed

theorem mean_inv_weight_witness:
  "ieee_rounding float32 \<and>
   wf_tensor (T2 2 [[Fin 1, Fin 3], [Fin (- 1), Fin (- 1)],
                    [Fin (- (11258999 / 2 ^ 50)), Fin (- (11258999 / 2 ^ 50))],
                    [Fin (2 ^ 127), Fin (2 ^ 127)]]) \<and>
   (2 :: nat) < size0 (T2 2 [[Fin 1, Fin 3], [Fin (- 1), Fin (- 1)],
                    [Fin (- (11258999 / 2 ^ 50)), Fin (- (11258999 / 2 ^ 50))],
                    [Fin (2 ^ 127), Fin (2 ^ 127)]]) \<and>
   feps float32 = Fin (11258999 / 2 ^ 50) \<and>
   edge_weight_from_attr float32
     (T2 2 [[Fin 1, Fin 3], [Fin (- 1), Fin (- 1)],
            [Fin (- (11258999 / 2 ^ 50)), Fin (- (11258999 / 2 ^ 50))],
            [Fin (2 ^ 127), Fin (2 ^ 127)]]) ''mean_inv'' =
     Inr (T1 [Fin (1 / 2), Fin 0, PInf, Fin 0])"
proof -
  define t where "t = T2 2 [[Fin 1, Fin 3], [Fin (- 1), Fin (- 1)],
                    [Fin (- (11258999 / 2 ^ 50)), Fin (- (11258999 / 2 ^ 50))],
                    [Fin (2 ^ 127 :: real), Fin (2 ^ 127)]]"
  have h: "wf_tensor t" "(2 :: nat) < size0 t"
    by (simp_all add: t_def)
  from mean_inv_weight [OF float32_rounding h] obtain ws where
    "edge_weight_from_attr float32 t ''mean_inv'' = Inr (T1 ws)" by blast
  moreover have "edge_weight_from_attr float32 t ''mean_inv'' = Inr (T1 [Fin (1 / 2), Fin 0, PInf, Fin 0])"
    by (simp add: t_def edge_weight_from_attr_def clamp_def f32)
  ultimately show ?thesis using h float32_rounding feps_float32 unfolding t_def by blast
qed

text \<open>
  C5 as stated fails: the row \<open>[-1, -1]\<close> has the weight 0, not \<open>1 / (-1 + \<epsilon>)\<close>, and the
  row \<open>[2]\<close> of a tensor of shape \<open>[1, 1]\<close> has the weight 2, not \<open>1 / (2 + \<epsilon>)\<close>.
\<close>

theorem mean_inv_counterexample:
  "edge_weight_from_attr float32 (T2 2 [[Fin (- 1), Fin (- 1)]]) ''mean_inv'' = Inr (T1 [Fin 0]) \<and>
   1 / (- 1 + eps) \<noteq> 0 \<and>
   edge_weight_from_attr float32 (T2 1 [[Fin 2]]) ''mean_inv'' = Inr (T1 [Fin 2]) \<and>
   1 / (2 + eps) \<noteq> 2"
  by (simp add: edge_weight_from_attr_def clamp_def eps_def f32)

subsection \<open>Notices and the build over a sequence of calls\<close>

lemmas run_defs = forward_def prepare_inputs_def note_edge_v_def adapt_gcn_def adapt_ignoring_def
  lazy_build_def build_layers_def make_conv_def fill_edge_attr_def read_out_def plain_lib_def
  zeros_def instance_of_def GNNBackbone_init_def lower_def lower_char_def upper_def upper_char_def
  graph2_def ignoring_kinds_def pick_arg_def all_notices_def Let_def

text \<open>
  C9. On every instance and for every sequence of forward calls, the notice that edge
  features are ignored and the notice that the \<^verbatim>\<open>edge_v\<close> field is ignored are each
  emitted at most once: a flag that is set stays set and no later call emits its notice;
  a flag that is not set is set, and its notice emitted once, by the first call that
  meets the condition.
\<close>

theorem notices_at_most_once:
  "count_list (all_notices ext s ds) Edge_v_ignored \<le> 1 \<and>
   length (filter is_attr_ignored (all_notices ext s ds)) \<le> 1 \<and>
   (warned_edge_v_ignored s \<longrightarrow>
      warned_edge_v_ignored (final_state ext s ds) \<and>
      count_list (all_notices ext s ds) Edge_v_ignored = 0) \<and>
   (warned_edge_ignored s \<longrightarrow>
      warned_edge_ignored (final_state ext s ds) \<and>
      length (filter is_attr_ignored (all_notices ext s ds)) = 0) \<and>
   (\<not> warned_edge_v_ignored s \<and> (\<exists>d \<in> set ds. data_edge_v d \<noteq> None) \<longrightarrow>
      warned_edge_v_ignored (final_state ext s ds) \<and>
      count_list (all_notices ext s ds) Edge_v_ignored = 1) \<and>
   (\<not> warned_edge_ignored s \<and> (\<exists>d \<in> set ds. attr_dropped s d) \<longrightarrow>
      warned_edge_ignored (final_state ext s ds) \<and>
      length (filter is_attr_ignored (all_notices ext s ds)) = 1)"
  using edge_v_count [of ext s ds] attr_ignored_count [of ext s ds] by auto

theorem notices_at_most_once_witness:
  "warned_edge_v_ignored
     (f_state (forward plain_lib (instance_of ''sage'')
        (graph2\<lparr>data_edge_attr := Some (T2 2 [[Fin 1, Fin 2], [Fin 3, Fin 4]]), data_edge_v := Some (T1 [Fin 1, Fin 2])\<rparr>))) \<and>
   warned_edge_ignored
     (f_state (forward plain_lib (instance_of ''sage'')
        (graph2\<lparr>data_edge_attr := Some (T2 2 [[Fin 1, Fin 2], [Fin 3, Fin 4]]), data_edge_v := Some (T1 [Fin 1, Fin 2])\<rparr>))) \<and>
   all_notices plain_lib
     (f_state (forward plain_lib (instance_of ''sage'')
        (graph2\<lparr>data_edge_attr := Some (T2 2 [[Fin 1, Fin 2], [Fin 3, Fin 4]]), data_edge_v := Some (T1 [Fin 1, Fin 2])\<rparr>)))
     [graph2\<lparr>data_edge_attr := Some (T2 2 [[Fin 1, Fin 2], [Fin 3, Fin 4]]), data_edge_v := Some (T1 [Fin 1, Fin 2])\<rparr>,
      graph2\<lparr>data_edge_attr := Some (T2 2 [[Fin 1, Fin 2], [Fin 3, Fin 4]]), data_edge_v := Some (T1 [Fin 1, Fin 2])\<rparr>] = [] \<and>
   \<not> warned_edge_v_ignored (instance_of ''sage'') \<and> \<not> warned_edge_ignored (instance_of ''sage'') \<and>
   attr_dropped (instance_of ''sage'')
     (graph2\<lparr>data_edge_attr := Some (T2 2 [[Fin 1, Fin 2], [Fin 3, Fin 4]]), data_edge_v := Some (T1 [Fin 1, Fin 2])\<rparr>) \<and>
   all_notices plain_lib (instance_of ''sage'')
     [graph2\<lparr>data_edge_attr := Some (T2 2 [[Fin 1, Fin 2], [Fin 3, Fin 4]]), data_edge_v := Some (T1 [Fin 1, Fin 2])\<rparr>,
      graph2\<lparr>data_edge_attr := Some (T2 2 [[Fin 1, Fin 2], [Fin 3, Fin 4]]), data_edge_v := Some (T1 [Fin 1, Fin 2])\<rparr>,
      graph2\<lparr>data_edge_attr := Some (T2 2 [[Fin 1, Fin 2], [Fin 3, Fin 4]]), data_edge_v := Some (T1 [Fin 1, Fin 2])\<rparr>] =
     [Edge_v_ignored, Edge_attr_ignored ''SAGE'']"
proof -
  define d where "d = graph2\<lparr>data_edge_attr := Some (T2 2 [[Fin 1, Fin 2], [Fin 3, Fin 4]]), data_edge_v := Some (T1 [Fin 1, Fin 2])\<rparr>"
  define s1 where "s1 = f_state (forward plain_lib (instance_of ''sage'') d)"
  have w: "warned_edge_v_ignored s1" "warned_edge_ignored s1"
    by (simp_all add: s1_def d_def run_defs)
  have i: "\<not> warned_edge_v_ignored (instance_of ''sage'')" "\<not> warned_edge_ignored (instance_of ''sage'')"
    "attr_dropped (instance_of ''sage'') d" "data_edge_v d \<noteq> None"
    by (simp_all add: d_def run_defs attr_dropped_def)
  have "length (filter is_attr_ignored (all_notices plain_lib s1 [d, d])) = 0"
    "count_list (all_notices plain_lib s1 [d, d]) Edge_v_ignored = 0"
    using notices_at_most_once [of plain_lib s1 "[d, d]"] w by simp_all
  moreover have "all_notices plain_lib s1 [d, d] = []"
    by (simp add: s1_def d_def run_defs)
  moreover have "length (filter is_attr_ignored (all_notices plain_lib (instance_of ''sage'') [d, d, d])) = 1"
    using notices_at_most_once [of plain_lib "instance_of ''sage''" "[d, d, d]"] i by simp
  moreover have "all_notices plain_lib (instance_of ''sage'') [d, d, d] =
     [Edge_v_ignored, Edge_attr_ignored ''SAGE'']"
    by (simp add: d_def run_defs)
  ultimately show ?thesis using w i unfolding s1_def d_def by blast
qed

text \<open>
  C2, as the code has it. The layer stack is built at most once, by the first call that
  gets past input adaptation and the build; a call that raises before leaves the
  instance unbuilt. The call that builds makes one layer per hidden width, with the
  widths chained from the width of that batch's node features, as new objects, and a
  readout from the sum of the hidden widths; after it, whatever the later batches are,
  the layers, the readout, the edge width and the hidden widths stay the same objects
  and values, and no further object is constructed.
\<close>

theorem stack_built_once:
  assumes "\<not> built s" and "built (f_state (forward ext s d))"
  shows "length (convs (f_state (forward ext s d))) = length (hidden_dims s) \<and>
         map (\<lambda>l. (in_channels l, out_channels l)) (convs (f_state (forward ext s d))) =
           zip (size_last (data_x d) # hidden_dims s) (hidden_dims s) \<and>
         map layer_id (convs (f_state (forward ext s d))) =
           [next_id s ..< next_id s + length (hidden_dims s)] \<and>
         readout (f_state (forward ext s d)) =
           Some (Linear (next_id s + length (hidden_dims s)) (sum_list (hidden_dims s)) (out_dim s)) \<and>
         built (final_state ext (f_state (forward ext s d)) ds) \<and>
         convs (final_state ext (f_state (forward ext s d)) ds) = convs (f_state (forward ext s d)) \<and>
         readout (final_state ext (f_state (forward ext s d)) ds) = readout (f_state (forward ext s d)) \<and>
         edge_dim (final_state ext (f_state (forward ext s d)) ds) = edge_dim (f_state (forward ext s d)) \<and>
         next_id (final_state ext (f_state (forward ext s d)) ds) = next_id (f_state (forward ext s d)) \<and>
         hidden_dims (final_state ext (f_state (forward ext s d)) ds) = hidden_dims s \<and>
         conv_type (final_state ext (f_state (forward ext s d)) ds) = conv_type s"
proof -
  define s1 where "s1 = f_state (forward ext s d)"
  have b: "built s1" using assms(2) by (simp add: s1_def)
  note fb = forward_builds [OF assms, folded s1_def]
  have ids: "map layer_id (convs s1) = [next_id s ..< next_id s + length (hidden_dims s)]"
    by (rule fb(2))
  have len: "length (convs s1) = length (hidden_dims s)"
    using ids by (metis length_map length_upt add_diff_cancel_left')
  have hd: "hidden_dims s1 = hidden_dims s"
    using forward_config_flags(1) [of ext s d] by (simp add: s1_def config_def)
  have dims: "map (\<lambda>l. (in_channels l, out_channels l)) (convs s1) =
           zip (size_last (data_x d) # hidden_dims s) (hidden_dims s)"
    using fb(1) hd by (simp add: stack_ok_def)
  have st: "stack (final_state ext s1 ds) = stack s1"
    by (rule final_state_built_keeps_stack [OF b])
  have cf: "config (final_state ext s1 ds) = config s"
    by (simp add: final_state_config s1_def forward_config_flags)
  show ?thesis
    unfolding s1_def [symmetric]
    using len dims ids fb(3) st cf b by (simp add: stack_def config_def)
qed

theorem stack_built_once_witness:
  "\<not> built (instance_of ''gcn'') \<and>
   built (f_state (forward plain_lib (instance_of ''gcn'') graph2)) \<and>
   convs (f_state (forward plain_lib (instance_of ''gcn'') graph2)) = [Layer 0 GCNConv 3 4 None] \<and>
   convs (final_state plain_lib (f_state (forward plain_lib (instance_of ''gcn'') graph2))
            [graph2\<lparr>data_x := T2 3 [[Fin 1, Fin 1, Fin 1]], data_edge_index := []\<rparr>, graph2]) =
     [Layer 0 GCNConv 3 4 None] \<and>
   readout (final_state plain_lib (f_state (forward plain_lib (instance_of ''gcn'') graph2))
            [graph2\<lparr>data_x := T2 3 [[Fin 1, Fin 1, Fin 1]], data_edge_index := []\<rparr>, graph2]) =
     Some (Linear 1 4 1)"
proof -
  have h: "\<not> built (instance_of ''gcn'')"
    "built (f_state (forward plain_lib (instance_of ''gcn'') graph2))"
    by (simp_all add: run_defs)
  have v: "convs (f_state (forward plain_lib (instance_of ''gcn'') graph2)) = [Layer 0 GCNConv 3 4 None]"
    "readout (f_state (forward plain_lib (instance_of ''gcn'') graph2)) = Some (Linear 1 4 1)"
    by (simp_all add: run_defs)
  show ?thesis
    using stack_built_once [OF h, of "[graph2\<lparr>data_x := T2 3 [[Fin 1, Fin 1, Fin 1]], data_edge_index := []\<rparr>, graph2]"]
      h v by simp
qed

text \<open>
  C2 as stated fails: on a \<^verbatim>\<open>gine\<close> instance under the policy \<^verbatim>\<open>error\<close>, a first batch
  without edge features raises and builds nothing; a second batch of the same
  node-feature width with edge features builds the stack, on the second call.
\<close>

theorem stack_built_once_counterexample:
  "size_last (data_x graph2) = size_last (data_x (graph2\<lparr>data_edge_attr := Some (T2 2 [[Fin 1, Fin 2], [Fin 3, Fin 4]])\<rparr>)) \<and>
   f_result (forward plain_lib (instance_of ''gine'') graph2) = Inl ValueError_gine_edge_attr \<and>
   \<not> built (f_state (forward plain_lib (instance_of ''gine'') graph2)) \<and>
   convs (f_state (forward plain_lib (instance_of ''gine'') graph2)) = [] \<and>
   built (final_state plain_lib (instance_of ''gine'')
            [graph2, graph2\<lparr>data_edge_attr := Some (T2 2 [[Fin 1, Fin 2], [Fin 3, Fin 4]])\<rparr>]) \<and>
   convs (final_state plain_lib (instance_of ''gine'')
            [graph2, graph2\<lparr>data_edge_attr := Some (T2 2 [[Fin 1, Fin 2], [Fin 3, Fin 4]])\<rparr>]) =
     [Layer 0 GINEConv 3 4 (Some 2)]"
  by (simp add: run_defs)

subsection \<open>Unsupported kinds\<close>

lemma gine_supported: "''gine'' \<in> set supported_kinds"
  by (simp add: supported_kinds_def)

lemma prepare_inputs_Inr:
  assumes "\<not> (conv_type s = ''gine'' \<and> data_edge_attr d = None \<and> gine_missing_edge_policy s \<noteq> ''zeros'')"
  shows "\<exists>s1 ns. prepare_inputs fp s d =
           (Inr (data_x d, data_edge_index d,
                 if conv_type s \<in> set ignoring_kinds then None else data_edge_attr d,
                 fst (adapt_gcn fp s d), batch_of d), s1, ns)"
  unfolding prepare_inputs_eq batch_of_def using assms by (simp only: if_not_P if_False) blast

lemma prepare_inputs_Inl:
  assumes "conv_type s = ''gine'' \<and> data_edge_attr d = None \<and> gine_missing_edge_policy s \<noteq> ''zeros''"
  shows "\<exists>s1 ns. prepare_inputs fp s d = (Inl ValueError_gine_edge_attr, s1, ns)"
proof -
  have "fst (prepare_inputs fp s d) = Inl ValueError_gine_edge_attr"
    unfolding prepare_inputs_eq fst_conv using assms by (rule if_P)
  then show ?thesis by (cases "prepare_inputs fp s d") auto
qed

lemma forward_unsupported:
  assumes "conv_type s \<notin> set supported_kinds" and "hidden_dims s \<noteq> []" and "\<not> built s"
  shows "f_result (forward ext s d) = Inl (ValueError_unsupported (conv_type s)) \<and>
         f_calls (forward ext s d) = [] \<and> \<not> built (f_state (forward ext s d))"
proof -
  have ng: "conv_type s \<noteq> ''gine''" using assms(1) gine_supported by auto
  then obtain x ei ea ew b s1 ns where
    p: "prepare_inputs (float_ops ext) s d = (Inr (x, ei, ea, ew, b), s1, ns)"
    using prepare_inputs_Inr [of s d "float_ops ext"] by auto
  have k: "config s1 = config s" "stack s1 = stack s" using prepare_inputs_keeps [OF p] by simp_all
  then have f: "conv_type s1 = conv_type s" "hidden_dims s1 = hidden_dims s" "built s1 = built s"
    by (simp_all add: config_def stack_def)
  have "build_loop (conv_type s1) (inferred_edge_dim s1 ea) (next_id s1) (size_last x) (hidden_dims s1) =
      Inl (ValueError_unsupported (conv_type s1))"
    using build_loop_unsupported assms(1,2) f by simp
  then have "build_layers s1 (size_last x) (inferred_edge_dim s1 ea) =
      (Inl (ValueError_unsupported (conv_type s1)), s1)"
    by (rule build_layers_loop_fails)
  then have lb: "lazy_build s1 x ea = (Inl (ValueError_unsupported (conv_type s1)), s1)"
    using lazy_build_builds [of s1 ea x] ng f by simp
  have nb: "\<not> built s1" using assms(3) f by simp
  show ?thesis unfolding forward_build_error [OF p nb lb] using nb f by simp
qed

lemma final_state_unsupported:
  assumes "conv_type s \<notin> set supported_kinds" and "hidden_dims s \<noteq> []" and "\<not> built s"
  shows "\<not> built (final_state ext s ds) \<and> config (final_state ext s ds) = config s"
  using assms
proof (induction ds arbitrary: s)
  case Nil
  then show ?case by simp
next
  case (Cons d ds)
  define s' where "s' = f_state (forward ext s d)"
  have c: "config s' = config s" by (simp add: s'_def forward_config_flags)
  then have "conv_type s' \<notin> set supported_kinds" "hidden_dims s' \<noteq> []"
    using Cons.prems by (simp_all add: config_def)
  moreover have "\<not> built s'" using forward_unsupported [OF Cons.prems] by (simp add: s'_def)
  ultimately show ?case using Cons.IH [of s'] c by (simp add: s'_def)
qed

text \<open>
  C1, as the code has it. The constructor does not check the operator kind: given a
  list of hidden widths it returns an unbuilt instance for every kind string. For an
  unrecognised kind and a non-empty list of hidden widths, the error is raised by
  \<^verbatim>\<open>_make_conv\<close> during the lazy build of each forward call, before any layer runs, and
  the instance stays unbuilt.
\<close>

theorem unsupported_kind_raises_at_forward:
  assumes "lower ct \<notin> set supported_kinds" and "hs \<noteq> []"
  shows "\<exists>s. GNNBackbone_init ct (Some hs) od p rl mode policy kw = (Inr s, []) \<and> \<not> built s \<and>
           (\<forall>ext ds d.
              f_result (forward ext (final_state ext s ds) d) = Inl (ValueError_unsupported (lower ct)) \<and>
              f_calls (forward ext (final_state ext s ds) d) = [] \<and>
              \<not> built (f_state (forward ext (final_state ext s ds) d)))"
proof -
  define s where "s = \<lparr>conv_type = lower ct, hidden_dims = hs, out_dim = od, dropout_p = p,
                  residue_logits = rl, gcn_edge_mode = mode,
                  gine_missing_edge_policy = policy, built = False, edge_dim = None,
                  warned_edge_ignored = False, warned_edge_v_ignored = False,
                  convs = [], readout = None, next_id = 0\<rparr>"
  have i: "GNNBackbone_init ct (Some hs) od p rl mode policy kw = (Inr s, [])"
    by (simp add: GNNBackbone_init_def s_def)
  have a: "conv_type s \<notin> set supported_kinds" "hidden_dims s \<noteq> []" "\<not> built s"
    using assms by (simp_all add: s_def)
  have "f_result (forward ext (final_state ext s ds) d) = Inl (ValueError_unsupported (lower ct)) \<and>
        f_calls (forward ext (final_state ext s ds) d) = [] \<and>
        \<not> built (f_state (forward ext (final_state ext s ds) d))" for ext ds d
  proof -
    note fs = final_state_unsupported [OF a, of ext ds]
    have c: "conv_type (final_state ext s ds) = lower ct" "hidden_dims (final_state ext s ds) = hs"
      using fs by (simp_all add: config_def s_def)
    show ?thesis
      using forward_unsupported [of "final_state ext s ds" ext d] fs assms c by simp
  qed
  then show ?thesis using i a by blast
qed

theorem unsupported_kind_raises_at_forward_witness:
  "lower ''Transformer'' \<notin> set supported_kinds \<and> [4 :: nat] \<noteq> [] \<and>
   GNNBackbone_init ''Transformer'' (Some [4]) 1 (3 / 10) False ''auto'' ''error'' [] =
     (Inr (instance_of ''Transformer''), []) \<and>
   f_result (forward plain_lib (final_state plain_lib (instance_of ''Transformer'') [graph2]) graph2) =
     Inl (ValueError_unsupported ''transformer'')"
proof -
  have h: "lower ''Transformer'' \<notin> set supported_kinds" "[4 :: nat] \<noteq> []"
    by (simp_all add: lower_def lower_char_def supported_kinds_def)
  have l: "lower ''Transformer'' = ''transformer''"
    by (simp add: lower_def lower_char_def)
  have i: "GNNBackbone_init ''Transformer'' (Some [4]) 1 (3 / 10) False ''auto'' ''error'' [] =
     (Inr (instance_of ''Transformer''), [])"
    by (simp add: instance_of_def GNNBackbone_init_def)
  from unsupported_kind_raises_at_forward [OF h, of 1 "3 / 10" False "''auto''" "''error''" "[]"]
  obtain s where s: "GNNBackbone_init ''Transformer'' (Some [4]) 1 (3 / 10) False ''auto'' ''error'' [] = (Inr s, [])"
    and f: "\<forall>ext ds d. f_result (forward ext (final_state ext s ds) d) =
            Inl (ValueError_unsupported (lower ''Transformer''))"
    by blast
  have "s = instance_of ''Transformer''" using s i by simp
  then have "f_result (forward plain_lib (final_state plain_lib (instance_of ''Transformer'') [graph2]) graph2) =
     Inl (ValueError_unsupported (lower ''Transformer''))"
    using f by blast
  then show ?thesis using h i unfolding l by blast
qed

text \<open>
  C1 as stated fails: the constructor accepts the kind \<^verbatim>\<open>transformer\<close>, which
  \<^verbatim>\<open>_make_conv\<close> does not know.
\<close>

theorem unsupported_kind_counterexample:
  "lower ''transformer'' \<notin> set supported_kinds \<and>
   \<not> isl (fst (GNNBackbone_init ''transformer'' (Some [4]) 1 (3 / 10) False ''auto'' ''error'' []))"
  by (simp add: GNNBackbone_init_def lower_def lower_char_def supported_kinds_def)

text \<open>
  C4. The constructor raises when no list of hidden widths is given, under either
  name. It does not raise for the empty list: it returns an instance without hidden
  widths.
\<close>

theorem init_accepts_empty_hidden_dims:
  "GNNBackbone_init ct (Some []) od p rl mode policy kw =
     (Inr \<lparr>conv_type = lower ct, hidden_dims = [], out_dim = od, dropout_p = p,
           residue_logits = rl, gcn_edge_mode = mode, gine_missing_edge_policy = policy,
           built = False, edge_dim = None, warned_edge_ignored = False,
           warned_edge_v_ignored = False, convs = [], readout = None, next_id = 0\<rparr>, []) \<and>
   fst (GNNBackbone_init ct None od p rl mode policy []) = Inl ValueError_hidden_dims \<and>
   fst (GNNBackbone_init ct None od p rl mode policy [(''dims'', None)]) = Inl ValueError_hidden_dims \<and>
   isl (fst (GNNBackbone_init ct None od p rl mode policy [(''dims'', Some [])])) = False"
  by (simp add: GNNBackbone_init_def)

subsection \<open>Running the layers\<close>

lemma run_convs_calls:
  assumes "run_convs ext p cs h ei ea ew = (r, calls)"
  shows "\<forall>c \<in> set calls. call_layer c \<in> set cs \<and> call_arg c = pick_arg (call_layer c) ea ew"
  using assms
proof (induction cs arbitrary: h r calls)
  case Nil
  then show ?case by simp
next
  case (Cons c cs)
  show ?case
  proof (cases "conv_fwd ext c h ei (pick_arg c ea ew)")
    case (Inl e)
    then show ?thesis using Cons.prems by (auto simp add: Let_def)
  next
    case (Inr h1)
    obtain r' calls' where
      rec: "run_convs ext p cs (dropout_fwd ext p (act_fwd ext h1)) ei ea ew = (r', calls')"
      by (cases "run_convs ext p cs (dropout_fwd ext p (act_fwd ext h1)) ei ea ew") auto
    have "calls = Call c h ei (pick_arg c ea ew) # calls'"
      using Cons.prems Inr rec by (cases r') (simp_all add: Let_def)
    then show ?thesis using Cons.IH [OF rec] by auto
  qed
qed

lemma shape_pair: "shape h = [n, w] \<Longrightarrow> size0 h = n \<and> size_last h = w"
  by (cases h) auto

lemma run_convs_ok:
  assumes "lib_contract ext"
    and "map (\<lambda>l. (in_channels l, out_channels l)) cs = zip (F # hs) hs"
    and "shape h = [n, F]"
    and "\<forall>c \<in> set cs. arg_fits c (length ei) (pick_arg c ea ew)"
  shows "\<exists>outs calls. run_convs ext p cs h ei ea ew = (Inr outs, calls) \<and>
           (\<forall>t \<in> set outs. shape t = [n, size_last t]) \<and> map size_last outs = hs \<and>
           map call_layer calls = cs"
  using assms(2-)
proof (induction cs arbitrary: h F hs)
  case Nil
  then have "hs = []" by (cases hs) simp_all
  then show ?case by simp
next
  case (Cons c cs)
  from Cons.prems(1) obtain d ds where hs: "hs = d # ds" by (cases hs) auto
  from Cons.prems(1) have c: "in_channels c = F" "out_channels c = d"
    and rest: "map (\<lambda>l. (in_channels l, out_channels l)) cs = zip (d # ds) ds"
    by (simp_all add: hs)
  have fit: "arg_fits c (length ei) (pick_arg c ea ew)" using Cons.prems(3) by simp
  from assms(1) Cons.prems(2) c fit obtain h1 where
    h1: "conv_fwd ext c h ei (pick_arg c ea ew) = Inr h1" "shape h1 = [n, d]"
    unfolding lib_contract_def by metis
  define h2 where "h2 = dropout_fwd ext p (act_fwd ext h1)"
  have sh2: "shape h2 = [n, d]"
    using assms(1) h1(2) unfolding lib_contract_def h2_def by simp
  from Cons.IH [OF rest sh2] Cons.prems(3) obtain outs calls where
    rec: "run_convs ext p cs h2 ei ea ew = (Inr outs, calls)"
    and o: "\<forall>t \<in> set outs. shape t = [n, size_last t]" "map size_last outs = ds"
      "map call_layer calls = cs"
    by auto
  have "run_convs ext p (c # cs) h ei ea ew = (Inr (h2 # outs), Call c h ei (pick_arg c ea ew) # calls)"
    using h1(1) rec by (simp add: Let_def h2_def)
  moreover have "shape h2 = [n, size_last h2]" "size_last h2 = d"
    using sh2 shape_pair [OF sh2] by simp_all
  ultimately show ?case using o hs by simp
qed

lemma read_out_ok:
  assumes "lib_contract ext" and "outs \<noteq> []"
    and "\<forall>t \<in> set outs. shape t = [n, size_last t]"
    and "readout s = Some lin" and "in_features lin = sum_list (map size_last outs)"
    and "length b = n"
  shows "\<exists>y. read_out ext s outs b = Inr y \<and>
           shape y = [if residue_logits s then n else n_graphs ext b, out_features lin]"
proof -
  from assms(1,2,3) obtain h_cat where
    c: "cat_fwd ext outs = Inr h_cat" "shape h_cat = [n, sum_list (map size_last outs)]"
    unfolding lib_contract_def by metis
  show ?thesis
  proof (cases "residue_logits s")
    case True
    from assms(1) c(2) assms(5) obtain y where
      "linear_fwd ext lin h_cat = Inr y" "shape y = [n, out_features lin]"
      unfolding lib_contract_def by metis
    then show ?thesis using c(1) assms(4) True by (simp add: read_out_def)
  next
    case False
    from assms(1) c(2) assms(6) obtain g where
      g: "pool_fwd ext h_cat b = Inr g" "shape g = [n_graphs ext b, sum_list (map size_last outs)]"
      unfolding lib_contract_def by metis
    from assms(1) g(2) assms(5) obtain y where
      "linear_fwd ext lin g = Inr y" "shape y = [n_graphs ext b, out_features lin]"
      unfolding lib_contract_def by metis
    then show ?thesis using c(1) g(1) assms(4) False by (simp add: read_out_def)
  qed
qed

lemma stack_ok_length:
  assumes "stack_ok s F"
  shows "length (convs s) = length (hidden_dims s)"
proof -
  have "length (map (\<lambda>l. (in_channels l, out_channels l)) (convs s)) =
        length (zip (F # hidden_dims s) (hidden_dims s))"
    using assms by (simp add: stack_ok_def)
  then show ?thesis by simp
qed

lemma forward_run_ok:
  assumes "lib_contract ext"
    and "prepare_inputs (float_ops ext) s d = (Inr (x, ei, ea, ew, b), s1, ns)"
    and "(built s1 \<and> s2 = s1) \<or> (\<not> built s1 \<and> lazy_build s1 x ea = (Inr (), s2))"
    and "stack_ok s2 F" and "hidden_dims s2 \<noteq> []"
    and "shape x = [n, F]" and "length b = n"
    and "\<forall>c \<in> set (convs s2). arg_fits c (length ei) (pick_arg c (fill_edge_attr s2 ei ea) ew)"
  shows "\<exists>y. f_result (forward ext s d) = Inr y \<and>
           shape y = [if residue_logits s2 then n else n_graphs ext b, out_dim s2]"
    and "f_state (forward ext s d) = s2"
    and "map call_layer (f_calls (forward ext s d)) = convs s2"
proof -
  have dims: "map (\<lambda>l. (in_channels l, out_channels l)) (convs s2) =
      zip (F # hidden_dims s2) (hidden_dims s2)"
    using assms(4) by (simp add: stack_ok_def)
  from run_convs_ok [OF assms(1) dims assms(6) assms(8), of "dropout_p s2"]
  obtain outs calls where
    rc: "run_convs ext (dropout_p s2) (convs s2) x ei (fill_edge_attr s2 ei ea) ew = (Inr outs, calls)"
    and o: "\<forall>t \<in> set outs. shape t = [n, size_last t]" "map size_last outs = hidden_dims s2"
      "map call_layer calls = convs s2"
    by blast
  have l: "(if built s1 then (Inr (), s1) else lazy_build s1 x ea) = (Inr (), s2)"
    using assms(3) by auto
  have fw: "forward ext s d =
      \<lparr>f_result = read_out ext s2 outs b, f_state = s2, f_notices = ns, f_calls = calls\<rparr>"
    using forward_run [OF assms(2) l rc] by simp
  obtain lin where lin: "readout s2 = Some lin" "in_features lin = sum_list (hidden_dims s2)"
    "out_features lin = out_dim s2"
    using assms(4) by (auto simp add: stack_ok_def)
  have ne: "outs \<noteq> []" using o(2) assms(5) by auto
  from read_out_ok [OF assms(1) ne o(1) lin(1) _ assms(7)] lin(2) o(2)
  obtain y where "read_out ext s2 outs b = Inr y"
    "shape y = [if residue_logits s2 then n else n_graphs ext b, out_features lin]"
    by auto
  then show "\<exists>y. f_result (forward ext s d) = Inr y \<and>
           shape y = [if residue_logits s2 then n else n_graphs ext b, out_dim s2]"
    using fw lin(3) by simp
  show "f_state (forward ext s d) = s2" using fw by simp
  show "map call_layer (f_calls (forward ext s d)) = convs s2" using fw o(3) by simp
qed

lemma inferred_edge_dim_gine: "conv_type s = ''gine'' \<Longrightarrow> inferred_edge_dim s ea \<noteq> None"
  by (cases ea) (simp_all add: inferred_edge_dim_def)

lemma lazy_build_ok:
  assumes "conv_type s \<in> set supported_kinds"
    and "\<not> (conv_type s = ''gine'' \<and> ea = None \<and> gine_missing_edge_policy s \<noteq> ''zeros'')"
    and "0 \<le> dropout_p s" and "dropout_p s \<le> 1"
  shows "\<exists>s2. lazy_build s x ea = (Inr (), s2)"
proof -
  obtain ls where
    "build_loop (conv_type s) (inferred_edge_dim s ea) (next_id s) (size_last x) (hidden_dims s) = Inr ls"
    using build_loop_supported [OF assms(1), of "inferred_edge_dim s ea"] inferred_edge_dim_gine
    by blast
  then show ?thesis
    using build_layers_succeeds [OF _ assms(3,4)] lazy_build_builds [OF assms(2)] by simp
qed

text \<open>After input adaptation, an instance is built already or gets built, for a supported kind.\<close>

lemma ensure_built:
  assumes "prepare_inputs fp s d = (Inr (x, ei, ea, ew, b), s1, ns)"
    and "conv_type s \<in> set supported_kinds"
    and "if built s then stack_ok s F else 0 \<le> dropout_p s \<and> dropout_p s \<le> 1"
    and "size_last x = F"
  shows "\<exists>s2. ((built s1 \<and> s2 = s1) \<or> (\<not> built s1 \<and> lazy_build s1 x ea = (Inr (), s2))) \<and>
           stack_ok s2 F \<and> config s2 = config s \<and> built s2 \<and>
           edge_dim s2 = (if built s then edge_dim s else inferred_edge_dim s ea)"
proof -
  have k: "config s1 = config s" "stack s1 = stack s" using prepare_inputs_keeps [OF assms(1)] by simp_all
  then have f: "conv_type s1 = conv_type s" "dropout_p s1 = dropout_p s" "built s1 = built s"
    "convs s1 = convs s" "readout s1 = readout s" "edge_dim s1 = edge_dim s"
    "hidden_dims s1 = hidden_dims s" "out_dim s1 = out_dim s"
    "gine_missing_edge_policy s1 = gine_missing_edge_policy s"
    by (simp_all add: config_def stack_def)
  show ?thesis
  proof (cases "built s")
    case True
    then have "stack_ok s F" using assms(3) by simp
    then have "stack_ok s1 F" by (simp only: stack_ok_def f)
    then show ?thesis using True f k by auto
  next
    case False
    have ok: "\<not> (conv_type s1 = ''gine'' \<and> ea = None \<and> gine_missing_edge_policy s1 \<noteq> ''zeros'')"
      using assms(1) unfolding prepare_inputs_eq f by (auto split: if_splits simp add: ignoring_kinds_def)
    from lazy_build_ok [OF _ ok, of x] assms(2,3) False f obtain s2 where
      lb: "lazy_build s1 x ea = (Inr (), s2)" by auto
    note bl = build_layers_Inr [OF lazy_build_Inr(1) [OF lb]]
    have "inferred_edge_dim s1 ea = inferred_edge_dim s ea" by (simp add: inferred_edge_dim_def f)
    then show ?thesis using bl(1,3,4,5) lb False f k assms(4) by auto
  qed
qed

subsection \<open>The notice flags do not reach the result\<close>

lemma flags_only:
  assumes "config s' = config s" and "stack s' = stack s"
  shows "s' = s\<lparr>warned_edge_ignored := warned_edge_ignored s',
                 warned_edge_v_ignored := warned_edge_v_ignored s'\<rparr>"
  using assms by (cases s, cases s') (simp add: config_def stack_def)

lemma build_layers_flags:
  "build_layers (s\<lparr>warned_edge_ignored := a, warned_edge_v_ignored := b\<rparr>) F ed =
     (fst (build_layers s F ed),
      (snd (build_layers s F ed))\<lparr>warned_edge_ignored := a, warned_edge_v_ignored := b\<rparr>)"
proof -
  define s' where "s' = s\<lparr>warned_edge_ignored := a, warned_edge_v_ignored := b\<rparr>"
  have f: "conv_type s' = conv_type s" "next_id s' = next_id s" "hidden_dims s' = hidden_dims s"
    "dropout_p s' = dropout_p s" "out_dim s' = out_dim s"
    by (simp_all add: s'_def)
  show ?thesis
    unfolding s'_def [symmetric]
  proof (cases "build_loop (conv_type s) ed (next_id s) F (hidden_dims s)")
    case (Inl e)
    have "build_layers s F ed = (Inl e, s)" using build_layers_loop_fails [OF Inl] .
    moreover have "build_layers s' F ed = (Inl e, s')"
      using build_layers_loop_fails [of s' ed F e] Inl f by simp
    ultimately show "build_layers s' F ed =
       (fst (build_layers s F ed),
        (snd (build_layers s F ed))\<lparr>warned_edge_ignored := a, warned_edge_v_ignored := b\<rparr>)"
      by (simp add: s'_def)
  next
    case (Inr ls)
    have Inr': "build_loop (conv_type s') ed (next_id s') F (hidden_dims s') = Inr ls"
      using Inr f by simp
    show "build_layers s' F ed =
       (fst (build_layers s F ed),
        (snd (build_layers s F ed))\<lparr>warned_edge_ignored := a, warned_edge_v_ignored := b\<rparr>)"
    proof (cases "dropout_p s < 0 \<or> dropout_p s > 1")
      case True
      then have True': "dropout_p s' < 0 \<or> dropout_p s' > 1" using f by simp
      show ?thesis
        unfolding build_layers_dropout_fails [OF Inr True] build_layers_dropout_fails [OF Inr' True']
        by (simp add: s'_def)
    next
      case False
      then have p: "0 \<le> dropout_p s" "dropout_p s \<le> 1" by auto
      then have p': "0 \<le> dropout_p s'" "dropout_p s' \<le> 1" using f by simp_all
      show ?thesis
        unfolding build_layers_succeeds [OF Inr p] build_layers_succeeds [OF Inr' p']
        by (simp add: s'_def)
    qed
  qed
qed

lemma lazy_build_flags:
  "lazy_build (s\<lparr>warned_edge_ignored := a, warned_edge_v_ignored := b\<rparr>) x ea =
     (fst (lazy_build s x ea),
      (snd (lazy_build s x ea))\<lparr>warned_edge_ignored := a, warned_edge_v_ignored := b\<rparr>)"
proof -
  have i: "inferred_edge_dim (s\<lparr>warned_edge_ignored := a, warned_edge_v_ignored := b\<rparr>) ea =
      inferred_edge_dim s ea"
    by (simp add: inferred_edge_dim_def)
  show ?thesis
  proof (cases "conv_type s = ''gine'' \<and> ea = None \<and> gine_missing_edge_policy s \<noteq> ''zeros''")
    case True
    then show ?thesis
      using lazy_build_missing [OF True, of x]
        lazy_build_missing [of "s\<lparr>warned_edge_ignored := a, warned_edge_v_ignored := b\<rparr>" ea x]
      by simp
  next
    case False
    then show ?thesis
      using lazy_build_builds [OF False, of x]
        lazy_build_builds [of "s\<lparr>warned_edge_ignored := a, warned_edge_v_ignored := b\<rparr>" ea x]
      by (simp add: i build_layers_flags)
  qed
qed

lemma lazy_build_determined:
  assumes "config s' = config s" and "stack s' = stack s" and "lazy_build s x ea = (r, s2)"
  shows "\<exists>s2'. lazy_build s' x ea = (r, s2') \<and> config s2' = config s2 \<and> stack s2' = stack s2"
proof -
  have "lazy_build s' x ea =
      (r, s2\<lparr>warned_edge_ignored := warned_edge_ignored s',
             warned_edge_v_ignored := warned_edge_v_ignored s'\<rparr>)"
    using lazy_build_flags [where s = s and a = "warned_edge_ignored s'"
          and b = "warned_edge_v_ignored s'" and x = x and ea = ea]
      flags_only [OF assms(1,2)] assms(3) by simp
  then show ?thesis by (simp add: config_def stack_def)
qed

lemma forward_determined:
  assumes "config s' = config s" and "stack s' = stack s"
    and "fst (prepare_inputs (float_ops ext) s' d') = fst (prepare_inputs (float_ops ext) s d)"
  shows "f_result (forward ext s' d') = f_result (forward ext s d) \<and>
         f_calls (forward ext s' d') = f_calls (forward ext s d)"
proof -
  obtain r' s1' ns' where p': "prepare_inputs (float_ops ext) s' d' = (r', s1', ns')"
    by (cases "prepare_inputs (float_ops ext) s' d'") auto
  have k': "config s1' = config s" "stack s1' = stack s"
    using prepare_inputs_keeps(1,2) [OF p'] assms(1,2) by simp_all
  show ?thesis
  proof (cases rule: forward_cases [of ext s d])
    case (adapt_error e s1 ns)
    have "prepare_inputs (float_ops ext) s' d' = (Inl e, s1', ns')" using p' assms(3) adapt_error(1) by simp
    then show ?thesis unfolding adapt_error(2) by (simp add: forward_adapt_error)
  next
    case (build_error x ei ea ew b s1 ns e s2)
    have q: "prepare_inputs (float_ops ext) s' d' = (Inr (x, ei, ea, ew, b), s1', ns')"
      using p' assms(3) build_error(1) by simp
    have k: "config s1' = config s1" "stack s1' = stack s1"
      using k' prepare_inputs_keeps(1,2) [OF build_error(1)] by simp_all
    then have nb: "\<not> built s1'" using build_error(2) by (simp add: stack_def)
    from lazy_build_determined [OF k build_error(3)] obtain s2' where
      "lazy_build s1' x ea = (Inl e, s2')" by blast
    then show ?thesis unfolding build_error(4) using forward_build_error [OF q nb] by simp
  next
    case (run x ei ea ew b s1 ns s2 r calls)
    have q: "prepare_inputs (float_ops ext) s' d' = (Inr (x, ei, ea, ew, b), s1', ns')"
      using p' assms(3) run(1) by simp
    have k: "config s1' = config s1" "stack s1' = stack s1"
      using k' prepare_inputs_keeps(1,2) [OF run(1)] by simp_all
    have "\<exists>s2'. (if built s1' then (Inr (), s1') else lazy_build s1' x ea) = (Inr (), s2') \<and>
        config s2' = config s2 \<and> stack s2' = stack s2"
    proof (cases "built s1")
      case True
      then have "s2 = s1" "built s1'" using run(2) k by (simp_all add: stack_def)
      then show ?thesis using k by simp
    next
      case False
      then have "lazy_build s1 x ea = (Inr (), s2)" "\<not> built s1'"
        using run(2) k by (simp_all add: stack_def)
      then show ?thesis using lazy_build_determined [OF k] by simp
    qed
    then obtain s2' where
      l: "(if built s1' then (Inr (), s1') else lazy_build s1' x ea) = (Inr (), s2')"
      and c: "config s2' = config s2" "stack s2' = stack s2"
      by blast
    have ro: "readout s2' = readout s2" "residue_logits s2' = residue_logits s2"
      using c by (simp_all add: config_def stack_def)
    have e: "dropout_p s2' = dropout_p s2" "convs s2' = convs s2"
      "fill_edge_attr s2' ei ea = fill_edge_attr s2 ei ea"
      using c by (simp_all add: config_def stack_def fill_edge_attr_def)
    have e4: "read_out ext s2' = read_out ext s2"
      unfolding read_out_def fun_eq_iff ro by simp
    have rc: "run_convs ext (dropout_p s2') (convs s2') x ei (fill_edge_attr s2' ei ea) ew = (r, calls)"
      using run(3) e by simp
    show ?thesis unfolding run(4) forward_run [OF q l rc] e4 by simp
  qed
qed

subsection \<open>What the layers are called with\<close>

lemma forward_calls:
  assumes "prepare_inputs (float_ops ext) s d = (Inr (x, ei, ea, ew, b), s1, ns)"
  shows "\<forall>c \<in> set (f_calls (forward ext s d)).
           call_layer c \<in> set (convs (f_state (forward ext s d))) \<and>
           call_arg c = pick_arg (call_layer c) (fill_edge_attr (f_state (forward ext s d)) ei ea) ew"
proof (cases rule: forward_cases [of ext s d])
  case (adapt_error e s1 ns)
  then show ?thesis by simp
next
  case (build_error x ei ea ew b s1 ns e s2)
  then show ?thesis by simp
next
  case (run x' ei' ea' ew' b' s1' ns' s2 r calls)
  have eq: "x' = x" "ei' = ei" "ea' = ea" "ew' = ew" using run(1) assms by simp_all
  show ?thesis unfolding run(4) using run_convs_calls [OF run(3)] by (simp add: eq)
qed

lemma batch_of_edge_attr: "batch_of (d\<lparr>data_edge_attr := a\<rparr>) = batch_of d"
  by (cases "data_batch d") (simp_all add: batch_of_def)

lemma shape_zeros: "shape (zeros n w) = [n, w]"
  by (simp add: zeros_def)

lemma plain_lib_contract: "lib_contract plain_lib"
proof -
  have cat: "\<exists>c. cat_fwd plain_lib hs = Inr c \<and> shape c = [n, sum_list (map size_last hs)]"
    if "hs \<noteq> []" and "\<forall>h \<in> set hs. shape h = [n, size_last h]" for hs :: "fval tensor list" and n
  proof (cases hs)
    case Nil
    with that show ?thesis by simp
  next
    case (Cons h tl)
    have "size0 h = n" using that(2) Cons shape_pair [of h n "size_last h"] by simp
    then have "list_all (\<lambda>u. shape u = [size0 h, size_last u]) hs"
      using that(2) by (simp add: list_all_iff)
    then show ?thesis using Cons \<open>size0 h = n\<close>
      by (simp add: plain_lib_def shape_zeros)
  qed
  show ?thesis
    unfolding lib_contract_def
  proof (intro conjI allI impI)
    fix l and h :: "fval tensor" and ei :: "(nat \<times> nat) list" and a n
    assume "shape h = [n, in_channels l] \<and> arg_fits l (length ei) a"
    then show "\<exists>h'. conv_fwd plain_lib l h ei a = Inr h' \<and> shape h' = [n, out_channels l]"
      using shape_pair [of h n "in_channels l"] by (simp add: plain_lib_def shape_zeros)
  next
    fix h :: "fval tensor" show "shape (act_fwd plain_lib h) = shape h" by (simp add: plain_lib_def)
  next
    fix p and h :: "fval tensor" show "shape (dropout_fwd plain_lib p h) = shape h" by (simp add: plain_lib_def)
  next
    fix hs :: "fval tensor list" and n
    assume "hs \<noteq> [] \<and> (\<forall>h \<in> set hs. shape h = [n, size_last h])"
    then show "\<exists>c. cat_fwd plain_lib hs = Inr c \<and> shape c = [n, sum_list (map size_last hs)]"
      using cat by blast
  next
    fix h :: "fval tensor" and b :: "nat list" and n w
    assume "shape h = [n, w] \<and> length b = n"
    then show "\<exists>g. pool_fwd plain_lib h b = Inr g \<and> shape g = [n_graphs plain_lib b, w]"
      using shape_pair [of h n w] by (simp add: plain_lib_def shape_zeros)
  next
    fix lin and h :: "fval tensor" and n
    assume "shape h = [n, in_features lin]"
    then show "\<exists>y. linear_fwd plain_lib lin h = Inr y \<and> shape y = [n, out_features lin]"
      using shape_pair [of h n "in_features lin"] by (simp add: plain_lib_def shape_zeros)
  qed
qed

lemma op_of_ignoring:
  assumes "ct \<in> set ignoring_kinds" and "Some op = op_of ct"
  shows "op \<noteq> GCNConv \<and> op \<noteq> GINEConv"
  using assms by (auto simp add: ignoring_kinds_def op_of_def make_conv_def)

lemma ignoring_supported: "ct \<in> set ignoring_kinds \<Longrightarrow> ct \<in> set supported_kinds"
  by (auto simp add: ignoring_kinds_def supported_kinds_def)

lemma ignoring_not_gine: "ct \<in> set ignoring_kinds \<Longrightarrow> ct \<noteq> ''gine'' \<and> ct \<noteq> ''gcn''"
  by (auto simp add: ignoring_kinds_def)

lemma adapt_gcn_other: "conv_type s \<noteq> ''gcn'' \<Longrightarrow>
    fst (adapt_gcn fp s d) = data_edge_weight d"
  by (simp add: adapt_gcn_def)

lemma ignoring_prepared:
  assumes "conv_type s \<in> set ignoring_kinds"
  shows "fst (prepare_inputs fp s d) =
           Inr (data_x d, data_edge_index d, None,
                data_edge_weight d, batch_of d)"
  unfolding prepare_inputs_eq fst_conv batch_of_def
  using assms ignoring_not_gine [OF assms] by (simp add: adapt_gcn_other)

text \<open>
  C8. For a backbone of a kind that takes no edge information (\<^verbatim>\<open>gat\<close>, \<^verbatim>\<open>gatv2\<close>,
  \<^verbatim>\<open>sage\<close>, \<^verbatim>\<open>gin\<close>) and a valid batch that carries edge features, forward returns a
  tensor of shape \<open>[B, out_dim]\<close> at graph level, every layer is called without edge
  features, and neither the result nor the calls depend on the edge feature field. The
  batch is valid when its node features have shape \<open>[n, F]\<close>, with \<open>F\<close> the width the
  stack was built for if it is built, and its graph assignment has length \<open>n\<close>; the
  library keeps its contract; the hidden widths are not empty.
\<close>

theorem ignoring_kinds_drop_edge_attr:
  assumes "lib_contract ext" and "conv_type s \<in> set ignoring_kinds" and "hidden_dims s \<noteq> []"
    and "if built s then stack_ok s F else 0 \<le> dropout_p s \<and> dropout_p s \<le> 1"
    and "shape (data_x d) = [n, F]" and "length (batch_of d) = n" and "\<not> residue_logits s"
    and "data_edge_attr d = Some t"
  shows "(\<exists>y. f_result (forward ext s d) = Inr y \<and> shape y = [n_graphs ext (batch_of d), out_dim s]) \<and>
         map call_layer (f_calls (forward ext s d)) = convs (f_state (forward ext s d)) \<and>
         length (f_calls (forward ext s d)) = length (hidden_dims s) \<and>
         (\<forall>c \<in> set (f_calls (forward ext s d)). call_arg c = Plain) \<and>
         (\<forall>a. f_result (forward ext s (d\<lparr>data_edge_attr := a\<rparr>)) = f_result (forward ext s d) \<and>
              f_calls (forward ext s (d\<lparr>data_edge_attr := a\<rparr>)) = f_calls (forward ext s d))"
proof -
  obtain s1 ns where
    p: "prepare_inputs (float_ops ext) s d = (Inr (data_x d, data_edge_index d, None,
          data_edge_weight d, batch_of d), s1, ns)"
    using ignoring_prepared [OF assms(2), of "float_ops ext" d] by (cases "prepare_inputs (float_ops ext) s d") auto
  have szl: "size_last (data_x d) = F" using shape_pair [OF assms(5)] by simp
  from ensure_built [OF p ignoring_supported [OF assms(2)] assms(4) szl] obtain s2 where
    b: "(built s1 \<and> s2 = s1) \<or> (\<not> built s1 \<and> lazy_build s1 (data_x d) None = (Inr (), s2))"
    and ok: "stack_ok s2 F" and c: "config s2 = config s"
    by blast
  have f: "conv_type s2 = conv_type s" "hidden_dims s2 = hidden_dims s" "out_dim s2 = out_dim s"
    "residue_logits s2 = residue_logits s"
    using c by (simp_all add: config_def)
  have ops: "\<forall>l \<in> set (convs s2). layer_op l \<noteq> GCNConv \<and> layer_op l \<noteq> GINEConv"
    using ok op_of_ignoring [OF assms(2)] by (auto simp add: stack_ok_def list_all_iff f)
  then have plain: "\<forall>l \<in> set (convs s2). pick_arg l ea ew = Plain" for ea ew
    by (simp add: pick_arg_def)
  have fits: "\<forall>c \<in> set (convs s2). arg_fits c (length (data_edge_index d))
      (pick_arg c (fill_edge_attr s2 (data_edge_index d) None)
         (data_edge_weight d))"
    using ops plain by simp
  have hs: "hidden_dims s2 \<noteq> []" using assms(3) f by simp
  note r = forward_run_ok [OF assms(1) p b ok hs assms(5,6) fits]
  have 1: "\<exists>y. f_result (forward ext s d) = Inr y \<and> shape y = [n_graphs ext (batch_of d), out_dim s]"
    using r(1) assms(7) f by simp
  have 2: "map call_layer (f_calls (forward ext s d)) = convs (f_state (forward ext s d))"
    using r(2,3) by simp
  have 3: "length (f_calls (forward ext s d)) = length (hidden_dims s)"
    using r(3) stack_ok_length [OF ok] f by (metis length_map)
  have 4: "\<forall>c \<in> set (f_calls (forward ext s d)). call_arg c = Plain"
    using forward_calls [OF p] plain r(2) by auto
  have 5: "f_result (forward ext s (d\<lparr>data_edge_attr := a\<rparr>)) = f_result (forward ext s d) \<and>
      f_calls (forward ext s (d\<lparr>data_edge_attr := a\<rparr>)) = f_calls (forward ext s d)" for a
  proof (rule forward_determined)
    show "fst (prepare_inputs (float_ops ext) s (d\<lparr>data_edge_attr := a\<rparr>)) = fst (prepare_inputs (float_ops ext) s d)"
      by (simp add: ignoring_prepared [OF assms(2)] batch_of_edge_attr)
  qed simp_all
  show ?thesis using 1 2 3 4 5 by blast
qed

theorem ignoring_kinds_drop_edge_attr_witness:
  "lib_contract plain_lib \<and> conv_type (instance_of ''sage'') \<in> set ignoring_kinds \<and>
   hidden_dims (instance_of ''sage'') \<noteq> [] \<and>
   (if built (instance_of ''sage'') then stack_ok (instance_of ''sage'') 3
    else 0 \<le> dropout_p (instance_of ''sage'') \<and> dropout_p (instance_of ''sage'') \<le> 1) \<and>
   shape (data_x (graph2\<lparr>data_edge_attr := Some (T2 2 [[Fin 1, Fin 2], [Fin 3, Fin 4]])\<rparr>)) = [2, 3] \<and>
   length (batch_of (graph2\<lparr>data_edge_attr := Some (T2 2 [[Fin 1, Fin 2], [Fin 3, Fin 4]])\<rparr>)) = 2 \<and>
   \<not> residue_logits (instance_of ''sage'') \<and>
   f_result (forward plain_lib (instance_of ''sage'')
               (graph2\<lparr>data_edge_attr := Some (T2 2 [[Fin 1, Fin 2], [Fin 3, Fin 4]])\<rparr>)) = Inr (T2 1 [[Fin 0]]) \<and>
   f_calls (forward plain_lib (instance_of ''sage'')
               (graph2\<lparr>data_edge_attr := Some (T2 2 [[Fin 1, Fin 2], [Fin 3, Fin 4]])\<rparr>)) =
     [Call (Layer 0 SAGEConv 3 4 None) (T2 3 [[Fin 1, Fin 2, Fin 3], [Fin 4, Fin 5, Fin 6]]) [(0, 1), (1, 0)] Plain] \<and>
   f_calls (forward plain_lib (instance_of ''sage'') graph2) =
     [Call (Layer 0 SAGEConv 3 4 None) (T2 3 [[Fin 1, Fin 2, Fin 3], [Fin 4, Fin 5, Fin 6]]) [(0, 1), (1, 0)] Plain]"
proof -
  define d where "d = graph2\<lparr>data_edge_attr := Some (T2 2 [[Fin 1, Fin 2], [Fin 3, Fin 4]])\<rparr>"
  have h: "conv_type (instance_of ''sage'') \<in> set ignoring_kinds"
    "hidden_dims (instance_of ''sage'') \<noteq> []"
    "if built (instance_of ''sage'') then stack_ok (instance_of ''sage'') 3
     else 0 \<le> dropout_p (instance_of ''sage'') \<and> dropout_p (instance_of ''sage'') \<le> 1"
    "shape (data_x d) = [2, 3]" "length (batch_of d) = 2" "\<not> residue_logits (instance_of ''sage'')"
    "data_edge_attr d = Some (T2 2 [[Fin 1, Fin 2], [Fin 3, Fin 4]])"
    by (simp_all add: d_def run_defs batch_of_def)
  have v: "f_result (forward plain_lib (instance_of ''sage'') d) = Inr (T2 1 [[Fin 0]])"
    "f_calls (forward plain_lib (instance_of ''sage'') d) =
       [Call (Layer 0 SAGEConv 3 4 None) (T2 3 [[Fin 1, Fin 2, Fin 3], [Fin 4, Fin 5, Fin 6]]) [(0, 1), (1, 0)] Plain]"
    by (simp_all add: d_def run_defs)
  have g: "d\<lparr>data_edge_attr := None\<rparr> = graph2" by (simp add: d_def graph2_def)
  from ignoring_kinds_drop_edge_attr [OF plain_lib_contract h]
  have "f_calls (forward plain_lib (instance_of ''sage'') (d\<lparr>data_edge_attr := None\<rparr>)) =
      f_calls (forward plain_lib (instance_of ''sage'') d)"
    by blast
  then show ?thesis using plain_lib_contract h v unfolding g unfolding d_def by simp
qed

subsection \<open>The kind that requires edge features\<close>

lemma gine_prepared:
  assumes "conv_type s = ''gine''"
    and "\<not> (data_edge_attr d = None \<and> gine_missing_edge_policy s \<noteq> ''zeros'')"
  shows "fst (prepare_inputs fp s d) =
           Inr (data_x d, data_edge_index d, data_edge_attr d,
                data_edge_weight d, batch_of d)"
proof -
  have 1: "\<not> (conv_type s = ''gine'' \<and> data_edge_attr d = None \<and> gine_missing_edge_policy s \<noteq> ''zeros'')"
    using assms(2) by simp
  have 2: "conv_type s \<notin> set ignoring_kinds" "conv_type s \<noteq> ''gcn''"
    using assms(1) by (simp_all add: ignoring_kinds_def)
  show ?thesis
    unfolding prepare_inputs_eq fst_conv if_not_P [OF 1] batch_of_def
    using 2 by (simp add: adapt_gcn_other)
qed

lemma gine_missing:
  assumes "conv_type s = ''gine''" and "gine_missing_edge_policy s \<noteq> ''zeros''"
    and "data_edge_attr d = None"
  shows "prepare_inputs fp s d =
           (Inl ValueError_gine_edge_attr,
            s\<lparr>warned_edge_v_ignored := warned_edge_v_ignored s \<or> data_edge_v d \<noteq> None\<rparr>,
            if data_edge_v d \<noteq> None \<and> \<not> warned_edge_v_ignored s then [Edge_v_ignored] else [])"
proof -
  have 1: "conv_type s = ''gine'' \<and> data_edge_attr d = None \<and> gine_missing_edge_policy s \<noteq> ''zeros''"
    using assms by simp
  have 2: "\<not> derivation_fails fp s d" "\<not> attr_dropped s d"
    using assms(1) by (simp_all add: derivation_fails_def attr_dropped_def ignoring_kinds_def)
  show ?thesis
    unfolding prepare_inputs_eq if_P [OF 1] using 2 by simp
qed

lemma op_of_gine: "op_of ''gine'' = Some GINEConv"
  by (simp add: op_of_def make_conv_def)

lemma gine_forward_ok:
  assumes "lib_contract ext" and "conv_type s = ''gine''" and "hidden_dims s \<noteq> []"
    and "if built s then stack_ok s F \<and> edge_dim s = Some k
         else 0 \<le> dropout_p s \<and> dropout_p s \<le> 1"
    and "shape (data_x d) = [n, F]" and "length (batch_of d) = n"
    and "data_edge_attr d = Some t" and "shape t = [length (data_edge_index d), k]"
  shows "\<exists>y. f_result (forward ext s d) = Inr y \<and>
           shape y = [if residue_logits s then n else n_graphs ext (batch_of d), out_dim s]"
    and "built (f_state (forward ext s d))"
    and "\<forall>c \<in> set (f_calls (forward ext s d)). call_arg c = Attr (Some t)"
    and "length (f_calls (forward ext s d)) = length (hidden_dims s)"
proof -
  obtain s1 ns where
    p: "prepare_inputs (float_ops ext) s d = (Inr (data_x d, data_edge_index d, Some t,
          data_edge_weight d, batch_of d), s1, ns)"
    using gine_prepared [OF assms(2), of d "float_ops ext"] assms(7) by (cases "prepare_inputs (float_ops ext) s d") auto
  have szl: "size_last (data_x d) = F" using shape_pair [OF assms(5)] by simp
  have sup: "conv_type s \<in> set supported_kinds" using assms(2) gine_supported by simp
  have a4: "if built s then stack_ok s F else 0 \<le> dropout_p s \<and> dropout_p s \<le> 1"
    using assms(4) by (cases "built s") simp_all
  from ensure_built [OF p sup a4 szl] obtain s2 where
    b: "(built s1 \<and> s2 = s1) \<or> (\<not> built s1 \<and> lazy_build s1 (data_x d) (Some t) = (Inr (), s2))"
    and ok: "stack_ok s2 F" and c: "config s2 = config s" and bt: "built s2"
    and ed: "edge_dim s2 = (if built s then edge_dim s else inferred_edge_dim s (Some t))"
    by blast
  have f: "conv_type s2 = conv_type s" "hidden_dims s2 = hidden_dims s" "out_dim s2 = out_dim s"
    "residue_logits s2 = residue_logits s"
    using c by (simp_all add: config_def)
  obtain rs where t: "t = T2 k rs" using assms(8) by (cases t) auto
  have ed2: "edge_dim s2 = Some k"
    using ed assms(2,4) by (cases "built s") (simp_all add: inferred_edge_dim_def t)
  have ops: "\<forall>l \<in> set (convs s2). layer_op l = GINEConv \<and> layer_edge_dim l = Some k"
    using ok assms(2) ed2 op_of_gine by (auto simp add: stack_ok_def list_all_iff f)
  have fill: "fill_edge_attr s2 (data_edge_index d) (Some t) = Some t"
    by (simp add: fill_edge_attr_def)
  have pick: "\<forall>l \<in> set (convs s2). pick_arg l (Some t) ew = Attr (Some t)" for ew
    using ops by (simp add: pick_arg_def)
  have fits: "\<forall>c \<in> set (convs s2). arg_fits c (length (data_edge_index d))
      (pick_arg c (fill_edge_attr s2 (data_edge_index d) (Some t))
         (data_edge_weight d))"
    unfolding fill using ops pick assms(8) by (simp add: t)
  have hs: "hidden_dims s2 \<noteq> []" using assms(3) f by simp
  note r = forward_run_ok [OF assms(1) p b ok hs assms(5,6) fits]
  show "\<exists>y. f_result (forward ext s d) = Inr y \<and>
           shape y = [if residue_logits s then n else n_graphs ext (batch_of d), out_dim s]"
    using r(1) f by simp
  show "built (f_state (forward ext s d))" using r(2) bt by simp
  show "\<forall>c \<in> set (f_calls (forward ext s d)). call_arg c = Attr (Some t)"
    using forward_calls [OF p] pick r(2) fill by auto
  show "length (f_calls (forward ext s d)) = length (hidden_dims s)"
    using r(3) stack_ok_length [OF ok] f by (metis length_map)
qed

lemma stack_ok_flag: "stack_ok (s\<lparr>warned_edge_v_ignored := w\<rparr>) F = stack_ok s F"
  by (simp add: stack_ok_def)

text \<open>
  C3, as the code has it. On a \<^verbatim>\<open>gine\<close> backbone under a policy other than \<^verbatim>\<open>zeros\<close>,
  every forward call on a batch without edge features, on a built instance or not,
  raises in input adaptation: no layer is built or run, and the instance is as before
  but for the flag of the one-time \<^verbatim>\<open>edge_v\<close> notice, which is set when the batch carries
  that field. A following call on a valid batch with edge features of shape \<open>[E, k]\<close>
  returns a tensor of the output shape and leaves the instance built.
\<close>

theorem gine_missing_edge_attr_raises:
  assumes "conv_type s = ''gine''" and "gine_missing_edge_policy s \<noteq> ''zeros''"
    and "data_edge_attr d = None"
  shows "f_result (forward ext s d) = Inl ValueError_gine_edge_attr \<and>
         f_calls (forward ext s d) = [] \<and>
         f_state (forward ext s d) =
           s\<lparr>warned_edge_v_ignored := warned_edge_v_ignored s \<or> data_edge_v d \<noteq> None\<rparr> \<and>
         built (f_state (forward ext s d)) = built s \<and>
         convs (f_state (forward ext s d)) = convs s \<and>
         (lib_contract ext \<and> hidden_dims s \<noteq> [] \<and>
          (if built s then stack_ok s F \<and> edge_dim s = Some k
           else 0 \<le> dropout_p s \<and> dropout_p s \<le> 1) \<and>
          shape (data_x d2) = [n, F] \<and> length (batch_of d2) = n \<and>
          data_edge_attr d2 = Some t \<and> shape t = [length (data_edge_index d2), k] \<longrightarrow>
            (\<exists>y. f_result (forward ext (f_state (forward ext s d)) d2) = Inr y \<and>
                  shape y = [if residue_logits s then n else n_graphs ext (batch_of d2), out_dim s]) \<and>
            built (f_state (forward ext (f_state (forward ext s d)) d2)) \<and>
            (\<forall>c \<in> set (f_calls (forward ext (f_state (forward ext s d)) d2)). call_arg c = Attr (Some t)))"
proof -
  define s' where "s' = s\<lparr>warned_edge_v_ignored := warned_edge_v_ignored s \<or> data_edge_v d \<noteq> None\<rparr>"
  have fw: "forward ext s d =
      \<lparr>f_result = Inl ValueError_gine_edge_attr, f_state = s',
       f_notices = (if data_edge_v d \<noteq> None \<and> \<not> warned_edge_v_ignored s then [Edge_v_ignored] else []),
       f_calls = []\<rparr>"
    using forward_adapt_error [OF gine_missing [OF assms]] by (simp add: s'_def)
  have 1: "f_result (forward ext s d) = Inl ValueError_gine_edge_attr \<and>
         f_calls (forward ext s d) = [] \<and> f_state (forward ext s d) = s' \<and>
         built (f_state (forward ext s d)) = built s \<and> convs (f_state (forward ext s d)) = convs s"
    unfolding fw by (simp add: s'_def)
  have 2: "(\<exists>y. f_result (forward ext s' d2) = Inr y \<and>
               shape y = [if residue_logits s then n else n_graphs ext (batch_of d2), out_dim s]) \<and>
           built (f_state (forward ext s' d2)) \<and>
           (\<forall>c \<in> set (f_calls (forward ext s' d2)). call_arg c = Attr (Some t))"
    if h: "lib_contract ext" "hidden_dims s \<noteq> []"
      "if built s then stack_ok s F \<and> edge_dim s = Some k else 0 \<le> dropout_p s \<and> dropout_p s \<le> 1"
      "shape (data_x d2) = [n, F]" "length (batch_of d2) = n"
      "data_edge_attr d2 = Some t" "shape t = [length (data_edge_index d2), k]"
  proof -
    have c: "conv_type s' = ''gine''" "hidden_dims s' \<noteq> []"
      using assms(1) h(2) by (simp_all add: s'_def)
    have b: "if built s' then stack_ok s' F \<and> edge_dim s' = Some k
             else 0 \<le> dropout_p s' \<and> dropout_p s' \<le> 1"
      using h(3) by (cases "built s") (simp_all add: s'_def stack_ok_flag)
    note g = gine_forward_ok [OF h(1) c b h(4,5,6,7)]
    have r: "residue_logits s' = residue_logits s" "out_dim s' = out_dim s" by (simp_all add: s'_def)
    show ?thesis using g(1,2,3) unfolding r by blast
  qed
  show ?thesis using 1 2 unfolding s'_def by simp
qed

theorem gine_missing_edge_attr_raises_witness:
  "conv_type (instance_of ''gine'') = ''gine'' \<and>
   gine_missing_edge_policy (instance_of ''gine'') \<noteq> ''zeros'' \<and>
   data_edge_attr graph2 = None \<and> lib_contract plain_lib \<and>
   hidden_dims (instance_of ''gine'') \<noteq> [] \<and>
   (if built (instance_of ''gine'')
    then stack_ok (instance_of ''gine'') 3 \<and> edge_dim (instance_of ''gine'') = Some 2
    else 0 \<le> dropout_p (instance_of ''gine'') \<and> dropout_p (instance_of ''gine'') \<le> 1) \<and>
   shape (data_x (graph2\<lparr>data_edge_attr := Some (T2 2 [[Fin 1, Fin 2], [Fin 3, Fin 4]])\<rparr>)) = [2, 3] \<and>
   length (batch_of (graph2\<lparr>data_edge_attr := Some (T2 2 [[Fin 1, Fin 2], [Fin 3, Fin 4]])\<rparr>)) = 2 \<and>
   shape (T2 2 [[Fin 1, Fin 2], [Fin 3, Fin 4]]) =
     [length (data_edge_index (graph2\<lparr>data_edge_attr := Some (T2 2 [[Fin 1, Fin 2], [Fin 3, Fin 4]])\<rparr>)), 2] \<and>
   f_result (forward plain_lib (instance_of ''gine'') graph2) = Inl ValueError_gine_edge_attr \<and>
   f_state (forward plain_lib (instance_of ''gine'') graph2) = instance_of ''gine'' \<and>
   f_result (forward plain_lib (f_state (forward plain_lib (instance_of ''gine'') graph2))
               (graph2\<lparr>data_edge_attr := Some (T2 2 [[Fin 1, Fin 2], [Fin 3, Fin 4]])\<rparr>)) = Inr (T2 1 [[Fin 0]]) \<and>
   built (f_state (forward plain_lib (f_state (forward plain_lib (instance_of ''gine'') graph2))
               (graph2\<lparr>data_edge_attr := Some (T2 2 [[Fin 1, Fin 2], [Fin 3, Fin 4]])\<rparr>)))"
proof -
  define d2 where "d2 = graph2\<lparr>data_edge_attr := Some (T2 2 [[Fin 1, Fin 2], [Fin 3, Fin 4]])\<rparr>"
  have h: "conv_type (instance_of ''gine'') = ''gine''"
    "gine_missing_edge_policy (instance_of ''gine'') \<noteq> ''zeros''"
    "data_edge_attr graph2 = None"
    by (simp_all add: run_defs)
  have g: "hidden_dims (instance_of ''gine'') \<noteq> []"
    "if built (instance_of ''gine'')
     then stack_ok (instance_of ''gine'') 3 \<and> edge_dim (instance_of ''gine'') = Some 2
     else 0 \<le> dropout_p (instance_of ''gine'') \<and> dropout_p (instance_of ''gine'') \<le> 1"
    "shape (data_x d2) = [2, 3]" "length (batch_of d2) = 2"
    "data_edge_attr d2 = Some (T2 2 [[Fin 1, Fin 2], [Fin 3, Fin 4]])"
    "shape (T2 2 [[Fin 1, Fin 2], [Fin 3, Fin 4]]) = [length (data_edge_index d2), 2]"
    by (simp_all add: d2_def run_defs batch_of_def)
  have v: "f_state (forward plain_lib (instance_of ''gine'') graph2) = instance_of ''gine''"
    "f_result (forward plain_lib (f_state (forward plain_lib (instance_of ''gine'') graph2)) d2) =
       Inr (T2 1 [[Fin 0]])"
    by (simp_all add: d2_def run_defs)
  from gine_missing_edge_attr_raises [OF h, of plain_lib 3 2 d2 2 "T2 2 [[Fin 1, Fin 2], [Fin 3, Fin 4]]"]
    plain_lib_contract g
  have "f_result (forward plain_lib (instance_of ''gine'') graph2) = Inl ValueError_gine_edge_attr"
    "built (f_state (forward plain_lib (f_state (forward plain_lib (instance_of ''gine'') graph2)) d2))"
    by blast+
  then show ?thesis using h g v plain_lib_contract unfolding d2_def by simp
qed

text \<open>
  C3 as stated fails where it says the state is unchanged: a batch without edge
  features that carries \<^verbatim>\<open>edge_v\<close> raises, and the call has set the notice flag.
\<close>

theorem gine_missing_edge_attr_counterexample:
  "f_result (forward plain_lib (instance_of ''gine'') (graph2\<lparr>data_edge_v := Some (T1 [Fin 1, Fin 2])\<rparr>)) =
     Inl ValueError_gine_edge_attr \<and>
   \<not> warned_edge_v_ignored (instance_of ''gine'') \<and>
   warned_edge_v_ignored
     (f_state (forward plain_lib (instance_of ''gine'') (graph2\<lparr>data_edge_v := Some (T1 [Fin 1, Fin 2])\<rparr>))) \<and>
   f_state (forward plain_lib (instance_of ''gine'') (graph2\<lparr>data_edge_v := Some (T1 [Fin 1, Fin 2])\<rparr>)) \<noteq>
     instance_of ''gine''"
  by (simp add: run_defs)

lemma gine_edge_attr_handed_over:
  assumes "conv_type s = ''gine''" and "data_edge_attr d = Some t"
  shows "\<forall>c \<in> set (f_calls (forward ext s d)).
           call_arg c = pick_arg (call_layer c) (Some t) (data_edge_weight d)"
proof -
  obtain s1 ns where
    p: "prepare_inputs (float_ops ext) s d = (Inr (data_x d, data_edge_index d, Some t,
          data_edge_weight d, batch_of d), s1, ns)"
    using gine_prepared [OF assms(1), of d "float_ops ext"] assms(2) by (cases "prepare_inputs (float_ops ext) s d") auto
  show ?thesis using forward_calls [OF p] by (simp add: fill_edge_attr_def)
qed

text \<open>
  C6. A \<^verbatim>\<open>gine\<close> backbone hands the batch's edge features to every layer as they are.
  That includes a one-dimensional tensor: the layers are built for the edge width 1 and
  called with the tensor of shape \<open>[E]\<close>, not with one of shape \<open>[E, 1]\<close>.
\<close>

theorem gine_flat_edge_attr_not_reshaped:
  "f_calls (forward plain_lib (instance_of ''gine'') (graph2\<lparr>data_edge_attr := Some (T1 [Fin (1 / 2), Fin (3 / 4)])\<rparr>)) =
     [Call (Layer 0 GINEConv 3 4 (Some 1)) (T2 3 [[Fin 1, Fin 2, Fin 3], [Fin 4, Fin 5, Fin 6]]) [(0, 1), (1, 0)]
        (Attr (Some (T1 [Fin (1 / 2), Fin (3 / 4)])))] \<and>
   f_result (forward plain_lib (instance_of ''gine'') (graph2\<lparr>data_edge_attr := Some (T1 [Fin (1 / 2), Fin (3 / 4)])\<rparr>)) =
     Inl (LibraryError 1) \<and>
   f_calls (forward plain_lib (instance_of ''gine'')
              (graph2\<lparr>data_edge_attr := Some (T2 1 [[Fin (1 / 2)], [Fin (3 / 4)]])\<rparr>)) =
     [Call (Layer 0 GINEConv 3 4 (Some 1)) (T2 3 [[Fin 1, Fin 2, Fin 3], [Fin 4, Fin 5, Fin 6]]) [(0, 1), (1, 0)]
        (Attr (Some (T2 1 [[Fin (1 / 2)], [Fin (3 / 4)]])))] \<and>
   f_result (forward plain_lib (instance_of ''gine'')
              (graph2\<lparr>data_edge_attr := Some (T2 1 [[Fin (1 / 2)], [Fin (3 / 4)]])\<rparr>)) = Inr (T2 1 [[Fin 0]])"
  by (simp add: run_defs)

text \<open>
  C7. On a \<^verbatim>\<open>gcn\<close> backbone and a batch without explicit edge weight, an exception of
  the normaliser does not leave input adaptation: it returns its tuple, with no edge
  weight, and the layers are called with no edge weight. The notice of the failure is
  emitted by the call unless the flag was set, and at most once over any sequence of
  calls. With a library that keeps its contract and a valid batch the call returns.
\<close>

theorem gcn_derivation_failure_is_caught:
  assumes "conv_type s = ''gcn''" and "data_edge_weight d = None" and "data_edge_attr d = Some t"
    and "edge_weight_from_attr (float_ops ext) t (gcn_edge_mode s) = Inl e"
  shows "(\<exists>s1 ns. prepare_inputs (float_ops ext) s d =
            (Inr (data_x d, data_edge_index d, Some t, None, batch_of d), s1, ns)) \<and>
         (\<forall>c \<in> set (f_calls (forward ext s d)). call_arg c = pick_arg (call_layer c) (Some t) None) \<and>
         warned_edge_ignored (f_state (forward ext s d)) \<and>
         f_notices (forward ext s d) =
           (if data_edge_v d \<noteq> None \<and> \<not> warned_edge_v_ignored s then [Edge_v_ignored] else []) @
           (if warned_edge_ignored s then [] else [Gcn_weight_failed]) \<and>
         (\<forall>ds. count_list (all_notices ext s ds) Gcn_weight_failed \<le> 1) \<and>
         (lib_contract ext \<and> hidden_dims s \<noteq> [] \<and>
          (if built s then stack_ok s F else 0 \<le> dropout_p s \<and> dropout_p s \<le> 1) \<and>
          shape (data_x d) = [n, F] \<and> length (batch_of d) = n \<longrightarrow>
            (\<exists>y. f_result (forward ext s d) = Inr y) \<and>
            length (f_calls (forward ext s d)) = length (hidden_dims s) \<and>
            (\<forall>c \<in> set (f_calls (forward ext s d)). call_arg c = Weight None))"
proof -
  have df: "derivation_fails (float_ops ext) s d" using assms by (simp add: derivation_fails_def)
  then have nd: "\<not> attr_dropped s d" using not_both by blast
  have w: "fst (adapt_gcn (float_ops ext) s d) = None" using df by (simp add: adapt_gcn_eq)
  have ni: "conv_type s \<notin> set ignoring_kinds" "conv_type s \<noteq> ''gine''"
    using assms(1) by (simp_all add: ignoring_kinds_def)
  have 0: "\<not> (conv_type s = ''gine'' \<and> data_edge_attr d = None \<and> gine_missing_edge_policy s \<noteq> ''zeros'')"
    using ni by simp
  from prepare_inputs_Inr [OF 0, of "float_ops ext"] obtain s1 ns where
    p: "prepare_inputs (float_ops ext) s d = (Inr (data_x d, data_edge_index d, Some t, None, batch_of d), s1, ns)"
    using ni w assms(3) by auto
  have 1: "\<forall>c \<in> set (f_calls (forward ext s d)). call_arg c = pick_arg (call_layer c) (Some t) None"
    using forward_calls [OF p] ni by (simp add: fill_edge_attr_def)
  have 2: "warned_edge_ignored (f_state (forward ext s d))"
    using df by (simp add: forward_config_flags)
  have 3: "f_notices (forward ext s d) =
           (if data_edge_v d \<noteq> None \<and> \<not> warned_edge_v_ignored s then [Edge_v_ignored] else []) @
           (if warned_edge_ignored s then [] else [Gcn_weight_failed])"
    using df nd by (simp add: forward_notices)
  have 4: "count_list (all_notices ext s ds) Gcn_weight_failed \<le> 1" for ds
    using attr_ignored_count [of ext s ds] by simp
  have 5: "(\<exists>y. f_result (forward ext s d) = Inr y) \<and>
            length (f_calls (forward ext s d)) = length (hidden_dims s) \<and>
            (\<forall>c \<in> set (f_calls (forward ext s d)). call_arg c = Weight None)"
    if h: "lib_contract ext" "hidden_dims s \<noteq> []"
      "if built s then stack_ok s F else 0 \<le> dropout_p s \<and> dropout_p s \<le> 1"
      "shape (data_x d) = [n, F]" "length (batch_of d) = n"
  proof -
    have szl: "size_last (data_x d) = F" using shape_pair [OF h(4)] by simp
    have sup: "conv_type s \<in> set supported_kinds" using assms(1) by (simp add: supported_kinds_def)
    from ensure_built [OF p sup h(3) szl] obtain s2 where
      b: "(built s1 \<and> s2 = s1) \<or> (\<not> built s1 \<and> lazy_build s1 (data_x d) (Some t) = (Inr (), s2))"
      and ok: "stack_ok s2 F" and c: "config s2 = config s"
      by blast
    have f: "conv_type s2 = conv_type s" "hidden_dims s2 = hidden_dims s"
      using c by (simp_all add: config_def)
    have "op_of ''gcn'' = Some GCNConv" by (simp add: op_of_def make_conv_def)
    then have ops: "\<forall>l \<in> set (convs s2). layer_op l = GCNConv"
      using ok assms(1) by (auto simp add: stack_ok_def list_all_iff f)
    then have pick: "\<forall>l \<in> set (convs s2). pick_arg l ea None = Weight None" for ea
      by (simp add: pick_arg_def)
    have fits: "\<forall>c \<in> set (convs s2). arg_fits c (length (data_edge_index d))
        (pick_arg c (fill_edge_attr s2 (data_edge_index d) (Some t)) None)"
      using ops pick by simp
    have hs: "hidden_dims s2 \<noteq> []" using h(2) f by simp
    note r = forward_run_ok [OF h(1) p b ok hs h(4,5) fits]
    have a: "\<exists>y. f_result (forward ext s d) = Inr y" using r(1) by blast
    have l: "length (f_calls (forward ext s d)) = length (hidden_dims s)"
      using r(3) stack_ok_length [OF ok] f by (metis length_map)
    have "\<forall>c \<in> set (f_calls (forward ext s d)). call_layer c \<in> set (convs s2)"
      using forward_calls [OF p] r(2) by simp
    then have "\<forall>c \<in> set (f_calls (forward ext s d)). call_arg c = Weight None"
      using 1 pick by simp
    then show ?thesis using a l by blast
  qed
  show ?thesis using p 1 2 3 4 5 by blast
qed

theorem gcn_derivation_failure_is_caught_witness:
  "conv_type (instance_of ''gcn'') = ''gcn'' \<and>
   data_edge_weight (graph2\<lparr>data_edge_index := [], data_edge_attr := Some (T2 2 [])\<rparr>) = None \<and>
   edge_weight_from_attr (float_ops plain_lib) (T2 2 []) (gcn_edge_mode (instance_of ''gcn'')) = Inl RuntimeError_min_empty \<and>
   lib_contract plain_lib \<and> hidden_dims (instance_of ''gcn'') \<noteq> [] \<and>
   (if built (instance_of ''gcn'') then stack_ok (instance_of ''gcn'') 3
    else 0 \<le> dropout_p (instance_of ''gcn'') \<and> dropout_p (instance_of ''gcn'') \<le> 1) \<and>
   shape (data_x (graph2\<lparr>data_edge_index := [], data_edge_attr := Some (T2 2 [])\<rparr>)) = [2, 3] \<and>
   length (batch_of (graph2\<lparr>data_edge_index := [], data_edge_attr := Some (T2 2 [])\<rparr>)) = 2 \<and>
   forward plain_lib (instance_of ''gcn'') (graph2\<lparr>data_edge_index := [], data_edge_attr := Some (T2 2 [])\<rparr>) =
     \<lparr>f_result = Inr (T2 1 [[Fin 0]]),
      f_state = (instance_of ''gcn'')
        \<lparr>built := True, warned_edge_ignored := True, convs := [Layer 0 GCNConv 3 4 None],
         readout := Some (Linear 1 4 1), next_id := 2\<rparr>,
      f_notices = [Gcn_weight_failed],
      f_calls = [Call (Layer 0 GCNConv 3 4 None) (T2 3 [[Fin 1, Fin 2, Fin 3], [Fin 4, Fin 5, Fin 6]]) [] (Weight None)]\<rparr>"
proof -
  define d where "d = graph2\<lparr>data_edge_index := [], data_edge_attr := Some (T2 2 [])\<rparr>"
  have h: "conv_type (instance_of ''gcn'') = ''gcn''" "data_edge_weight d = None"
    "data_edge_attr d = Some (T2 2 [])"
    "edge_weight_from_attr (float_ops plain_lib) (T2 2 []) (gcn_edge_mode (instance_of ''gcn'')) = Inl RuntimeError_min_empty"
    by (simp_all add: d_def run_defs edge_weight_from_attr_def)
  have g: "hidden_dims (instance_of ''gcn'') \<noteq> []"
    "if built (instance_of ''gcn'') then stack_ok (instance_of ''gcn'') 3
     else 0 \<le> dropout_p (instance_of ''gcn'') \<and> dropout_p (instance_of ''gcn'') \<le> 1"
    "shape (data_x d) = [2, 3]" "length (batch_of d) = 2"
    by (simp_all add: d_def run_defs batch_of_def)
  have v: "forward plain_lib (instance_of ''gcn'') d =
     \<lparr>f_result = Inr (T2 1 [[Fin 0]]),
      f_state = (instance_of ''gcn'')
        \<lparr>built := True, warned_edge_ignored := True, convs := [Layer 0 GCNConv 3 4 None],
         readout := Some (Linear 1 4 1), next_id := 2\<rparr>,
      f_notices = [Gcn_weight_failed],
      f_calls = [Call (Layer 0 GCNConv 3 4 None) (T2 3 [[Fin 1, Fin 2, Fin 3], [Fin 4, Fin 5, Fin 6]]) [] (Weight None)]\<rparr>"
    by (simp add: d_def run_defs edge_weight_from_attr_def)
  from gcn_derivation_failure_is_caught [OF h, of 3 2] plain_lib_contract g
  have "\<exists>y. f_result (forward plain_lib (instance_of ''gcn'') d) = Inr y" by blast
  then show ?thesis using h g v plain_lib_contract unfolding d_def by simp
qed

end
